theory Spec2Isabelle
  imports Main
begin

section \<open>Buffers and the fixtures of \<open>defaults.js\<close>\<close>

text \<open>
  A Node.js \<open>Buffer\<close> is a sequence of bytes; \<open>char\<close> is a byte, so a buffer is a
  \<open>string\<close>. A variable that may hold \<open>null\<close> is an \<open>option\<close>.
\<close>

type_synonym buffer = string

datatype js_error = TypeError | SyntaxError

definition PATTERN_STRING :: string where
  "PATTERN_STRING = ''This is a pattern!''"

definition PATTERN_SIZE :: nat where
  "PATTERN_SIZE = 2 * 1000 * 1000"

definition PATTERN_STRING_REPEAT :: nat where
  "PATTERN_STRING_REPEAT = 100000"

definition BIG_FILE_SIZE :: nat where
  "BIG_FILE_SIZE = 500 * 1000 * 1000"

text \<open>
  \<open>Buffer.alloc(size, fill, encoding)\<close> with a string \<open>fill\<close>: the buffer of \<open>size\<close> bytes
  filled with the bytes of \<open>fill\<close>, repeated and cut at \<open>size\<close>; an empty \<open>fill\<close> gives a
  zero-filled buffer.
\<close>

definition Buffer_alloc :: "nat \<Rightarrow> string \<Rightarrow> buffer" where
  "Buffer_alloc sz fill =
     (if fill = [] then replicate sz (CHR 0x00)
      else map (\<lambda>i. fill ! (i mod length fill)) [0..<sz])"

text \<open>\<open>String.prototype.repeat(count)\<close>.\<close>

definition repeat :: "string \<Rightarrow> nat \<Rightarrow> string" where
  "repeat s count = concat (replicate count s)"

text \<open>\<open>Buffer.from(string, "utf8")\<close> on a string of ASCII characters: its bytes.\<close>

definition Buffer_from :: "string \<Rightarrow> buffer" where
  "Buffer_from s = s"

text \<open>The local \<open>patternBuffer\<close> of the \<open>/checkpattern\<close> handler.\<close>

definition checkpattern_patternBuffer :: buffer where
  "checkpattern_patternBuffer = Buffer_alloc PATTERN_SIZE PATTERN_STRING"

text \<open>The local \<open>patternBuffer\<close> of the \<open>/checkstring\<close> handler.\<close>

definition checkstring_patternBuffer :: buffer where
  "checkstring_patternBuffer = Buffer_from (repeat PATTERN_STRING PATTERN_STRING_REPEAT)"


section \<open>The request body accumulator\<close>

text \<open>
  The three closure variables of \<open>#processRequest\<close> that hold the request body, and the
  \<open>"data"\<close> and \<open>"end"\<close> handlers that update them. \<open>push\<close> on \<open>null\<close> and
  \<open>Buffer.concat(null)\<close> throw a \<open>TypeError\<close> before anything is assigned.
\<close>

record accumulator =
  requestBodyBuffer :: "buffer option"
  requestBodyBufferSize :: nat
  requestBodyArrayOfBuffers :: "buffer list option"

definition new_accumulator :: accumulator where
  "new_accumulator =
     \<lparr>requestBodyBuffer = None, requestBodyBufferSize = 0, requestBodyArrayOfBuffers = Some []\<rparr>"

definition Buffer_concat :: "buffer list option \<Rightarrow> js_error + buffer" where
  "Buffer_concat list = (case list of None \<Rightarrow> Inl TypeError | Some bs \<Rightarrow> Inr (concat bs))"

definition on_data :: "buffer \<Rightarrow> accumulator \<Rightarrow> js_error + accumulator" where
  "on_data chunk s =
     (case requestBodyArrayOfBuffers s of
        None \<Rightarrow> Inl TypeError
      | Some bs \<Rightarrow>
          Inr (s\<lparr>requestBodyArrayOfBuffers := Some (bs @ [chunk]),
                 requestBodyBufferSize := requestBodyBufferSize s + length chunk\<rparr>))"

definition on_end :: "accumulator \<Rightarrow> js_error + accumulator" where
  "on_end s =
     (if requestBodyBufferSize s > 0 then
        (case Buffer_concat (requestBodyArrayOfBuffers s) of
           Inl e \<Rightarrow> Inl e
         | Inr b \<Rightarrow> Inr (s\<lparr>requestBodyBuffer := Some b, requestBodyArrayOfBuffers := None\<rparr>))
      else Inr s)"

datatype inbound_event = Data buffer | End_of_stream

fun inbound_handler :: "inbound_event \<Rightarrow> accumulator \<Rightarrow> js_error + accumulator" where
  "inbound_handler (Data chunk) s = on_data chunk s"
| "inbound_handler End_of_stream s = on_end s"

text \<open>
  The inbound events of a session, handled in order. A handler that throws leaves the
  variables as they were; the run stops there and reports the error with that state.
\<close>

fun inbound_run :: "inbound_event list \<Rightarrow> accumulator \<Rightarrow> accumulator \<times> js_error option" where
  "inbound_run [] s = (s, None)"
| "inbound_run (e # es) s =
     (case inbound_handler e s of
        Inl err \<Rightarrow> (s, Some err)
      | Inr s' \<Rightarrow> inbound_run es s')"

text \<open>The bytes of the body a session holds: a \<open>null\<close> buffer is the empty body.\<close>

definition body_bytes :: "accumulator \<Rightarrow> buffer" where
  "body_bytes s = (case requestBodyBuffer s of None \<Rightarrow> [] | Some b \<Rightarrow> b)"


section \<open>Properties of the fixtures\<close>

lemma length_Buffer_alloc: "length (Buffer_alloc n fill) = n"
  by (simp add: Buffer_alloc_def)

lemma nth_Buffer_alloc:
  "fill \<noteq> [] \<Longrightarrow> i < n \<Longrightarrow> Buffer_alloc n fill ! i = fill ! (i mod length fill)"
  by (simp add: Buffer_alloc_def)

lemma length_repeat: "length (repeat s k) = k * length s"
  by (induction k) (simp_all add: repeat_def)

lemma length_PATTERN_STRING: "length PATTERN_STRING = 18"
  by (simp add: PATTERN_STRING_def)

lemma length_checkpattern_patternBuffer: "length checkpattern_patternBuffer = 2000000"
  by (simp add: checkpattern_patternBuffer_def length_Buffer_alloc PATTERN_SIZE_def)

lemma length_checkstring_patternBuffer: "length checkstring_patternBuffer = 1800000"
  by (simp add: checkstring_patternBuffer_def Buffer_from_def length_repeat
      length_PATTERN_STRING PATTERN_STRING_REPEAT_def)

lemma checkpattern_patternBuffer_not_repeat:
  "checkpattern_patternBuffer \<noteq> repeat PATTERN_STRING k"
proof
  assume "checkpattern_patternBuffer = repeat PATTERN_STRING k"
  then have "length checkpattern_patternBuffer = length (repeat PATTERN_STRING k)"
    by (rule arg_cong)
  then have "(2000000::nat) = k * 18"
    by (simp only: length_checkpattern_patternBuffer length_repeat length_PATTERN_STRING)
  then show False
    by presburger
qed

lemma nth_checkpattern_patternBuffer:
  assumes "i < 2000000"
  shows "checkpattern_patternBuffer ! i = PATTERN_STRING ! (i mod 18)"
proof -
  have ne: "PATTERN_STRING \<noteq> []"
    by (simp add: PATTERN_STRING_def)
  have "Buffer_alloc 2000000 PATTERN_STRING ! i = PATTERN_STRING ! (i mod length PATTERN_STRING)"
    using ne assms by (rule nth_Buffer_alloc)
  moreover have "PATTERN_SIZE = 2000000"
    by (simp add: PATTERN_SIZE_def)
  ultimately show ?thesis
    by (simp only: checkpattern_patternBuffer_def length_PATTERN_STRING)
qed

lemma checkstring_patternBuffer_repeat:
  "checkstring_patternBuffer = repeat PATTERN_STRING 100000"
  by (simp only: checkstring_patternBuffer_def Buffer_from_def PATTERN_STRING_REPEAT_def)

lemma checkpattern_patternBuffer_tail:
  "drop 1999998 checkpattern_patternBuffer = take 2 PATTERN_STRING"
proof (rule nth_equalityI)
  show "length (drop 1999998 checkpattern_patternBuffer) = length (take 2 PATTERN_STRING)"
    by (simp add: length_checkpattern_patternBuffer length_PATTERN_STRING)
next
  fix i assume "i < length (drop 1999998 checkpattern_patternBuffer)"
  then have i: "i < 2"
    by (simp add: length_checkpattern_patternBuffer)
  then have "1999998 + i < 2000000"
    by simp
  then have "checkpattern_patternBuffer ! (1999998 + i) = PATTERN_STRING ! ((1999998 + i) mod 18)"
    by (rule nth_checkpattern_patternBuffer)
  moreover have "(1999998 + i) mod 18 = i"
  proof -
    from i have "i = 0 \<or> i = 1"
      by arith
    then show ?thesis
      by (elim disjE) simp_all
  qed
  ultimately show "drop 1999998 checkpattern_patternBuffer ! i = take 2 PATTERN_STRING ! i"
    using i by (simp add: length_checkpattern_patternBuffer)
qed

text \<open>
  Claim C10. The binary fixture of \<open>/checkpattern\<close> has exactly 2,000,000 bytes, its byte
  at every index \<open>i\<close> is the byte at \<open>i mod 18\<close> of "This is a pattern!"; 2,000,000 is
  not a multiple of 18 (the remainder is 2, so the fixture ends with the first two bytes
  of the string), hence the fixture differs from every whole number of repetitions of the
  string, and in particular from the 1,800,000-byte text fixture of \<open>/checkstring\<close>, the
  string repeated 100,000 times.
\<close>

theorem C10_binary_fixture:
  "length checkpattern_patternBuffer = 2000000
   \<and> (\<forall>i<2000000. checkpattern_patternBuffer ! i = PATTERN_STRING ! (i mod 18))
   \<and> length PATTERN_STRING = 18
   \<and> (2000000::nat) mod 18 = 2
   \<and> drop 1999998 checkpattern_patternBuffer = take 2 PATTERN_STRING
   \<and> (\<forall>k. checkpattern_patternBuffer \<noteq> repeat PATTERN_STRING k)
   \<and> checkstring_patternBuffer = repeat PATTERN_STRING 100000
   \<and> length checkstring_patternBuffer = 1800000
   \<and> checkpattern_patternBuffer \<noteq> checkstring_patternBuffer"
proof (intro conjI allI impI)
  show "length checkpattern_patternBuffer = 2000000"
    by (rule length_checkpattern_patternBuffer)
  show "checkpattern_patternBuffer ! i = PATTERN_STRING ! (i mod 18)" if "i < 2000000" for i
    using that by (rule nth_checkpattern_patternBuffer)
  show "length PATTERN_STRING = 18"
    by (rule length_PATTERN_STRING)
  show "(2000000::nat) mod 18 = 2"
    by simp
  show "drop 1999998 checkpattern_patternBuffer = take 2 PATTERN_STRING"
    by (rule checkpattern_patternBuffer_tail)
  show "checkpattern_patternBuffer \<noteq> repeat PATTERN_STRING k" for k
    by (rule checkpattern_patternBuffer_not_repeat)
  show "checkstring_patternBuffer = repeat PATTERN_STRING 100000"
    by (rule checkstring_patternBuffer_repeat)
  show "length checkstring_patternBuffer = 1800000"
    by (rule length_checkstring_patternBuffer)
  show "checkpattern_patternBuffer \<noteq> checkstring_patternBuffer"
    unfolding checkstring_patternBuffer_repeat by (rule checkpattern_patternBuffer_not_repeat)
qed

theorem C10_binary_fixture_witness:
  "checkpattern_patternBuffer ! 1999999 = PATTERN_STRING ! 1
   \<and> PATTERN_STRING ! 1 = CHR ''h''"
proof -
  have lt: "(1999999::nat) < 2000000"
    by simp
  have "\<forall>i<2000000. checkpattern_patternBuffer ! i = PATTERN_STRING ! (i mod 18)"
    using C10_binary_fixture by (elim conjE)
  then have "checkpattern_patternBuffer ! 1999999 = PATTERN_STRING ! (1999999 mod 18)"
    using lt by blast
  moreover have "(1999999::nat) mod 18 = 1"
    by simp
  moreover have "PATTERN_STRING ! 1 = CHR ''h''"
    by (simp add: PATTERN_STRING_def)
  ultimately show ?thesis
    by simp
qed

section \<open>Properties of the body accumulator\<close>

lemma inbound_run_data:
  "requestBodyArrayOfBuffers s = Some bs \<Longrightarrow>
   inbound_run (map Data chunks @ rest) s =
   inbound_run rest
     (s\<lparr>requestBodyArrayOfBuffers := Some (bs @ chunks),
        requestBodyBufferSize := requestBodyBufferSize s + length (concat chunks)\<rparr>)"
proof (induction chunks arbitrary: s bs)
  case Nil
  then show ?case by (cases s) simp
next
  case (Cons c cs)
  let ?s' = "s\<lparr>requestBodyArrayOfBuffers := Some (bs @ [c]),
               requestBodyBufferSize := requestBodyBufferSize s + length c\<rparr>"
  have step: "inbound_handler (Data c) s = Inr ?s'"
    using Cons.prems by (simp add: on_data_def)
  have "requestBodyArrayOfBuffers ?s' = Some (bs @ [c])"
    by simp
  from Cons.IH [OF this] step show ?case
    by (simp add: add.assoc)
qed

definition completed :: "buffer list \<Rightarrow> accumulator" where
  "completed chunks = fst (inbound_run (map Data chunks @ [End_of_stream]) new_accumulator)"

lemma inbound_run_complete:
  "inbound_run (map Data chunks @ [End_of_stream]) new_accumulator =
   (if concat chunks = [] then
      \<lparr>requestBodyBuffer = None, requestBodyBufferSize = 0,
       requestBodyArrayOfBuffers = Some chunks\<rparr>
    else
      \<lparr>requestBodyBuffer = Some (concat chunks), requestBodyBufferSize = length (concat chunks),
       requestBodyArrayOfBuffers = None\<rparr>, None)"
proof -
  have "requestBodyArrayOfBuffers new_accumulator = Some []"
    by (simp add: new_accumulator_def)
  from inbound_run_data [OF this, of chunks "[End_of_stream]"] show ?thesis
    by (simp add: new_accumulator_def on_end_def Buffer_concat_def)
qed

lemma inbound_run_after_body:
  "requestBodyArrayOfBuffers s = None \<Longrightarrow> requestBodyBufferSize s > 0 \<Longrightarrow>
   fst (inbound_run later s) = s"
proof (cases later)
  case Nil
  then show ?thesis by simp
next
  case (Cons e es)
  assume "requestBodyArrayOfBuffers s = None" "requestBodyBufferSize s > 0"
  then have "inbound_handler e s = Inl TypeError"
    by (cases e) (simp_all add: on_data_def on_end_def Buffer_concat_def)
  with Cons show ?thesis by simp
qed

lemma inbound_run_end_again:
  "requestBodyBufferSize s = 0 \<Longrightarrow> fst (inbound_run (replicate k End_of_stream) s) = s"
  by (induction k) (simp_all add: on_end_def)

text \<open>
  Claim C7. For every ordered sequence of body chunks, once the inbound stream has ended
  the session's body is the concatenation of exactly those chunks in arrival order: the
  handlers do not throw, \<open>requestBodyBuffer\<close> is that concatenation, or stays \<open>null\<close> when
  no byte arrived (in particular when no chunk arrived), which is the empty body. After
  completion the buffer does not change: the chunk array of a non-empty body has been set
  to \<open>null\<close>, so any later inbound event would throw before assigning anything, and for
  an empty body a repeated end of stream assigns nothing.
\<close>

theorem C7_body_accumulator:
  "snd (inbound_run (map Data chunks @ [End_of_stream]) new_accumulator) = None
   \<and> body_bytes (completed chunks) = concat chunks
   \<and> requestBodyBuffer (completed chunks) =
       (if concat chunks = [] then None else Some (concat chunks))
   \<and> requestBodyBuffer (completed []) = None
   \<and> (concat chunks \<noteq> [] \<longrightarrow>
        (\<forall>later. fst (inbound_run later (completed chunks)) = completed chunks))
   \<and> (\<forall>k. fst (inbound_run (replicate k End_of_stream) (completed chunks)) = completed chunks)"
proof (intro conjI impI allI)
  show "snd (inbound_run (map Data chunks @ [End_of_stream]) new_accumulator) = None"
    by (simp add: inbound_run_complete)
  show "body_bytes (completed chunks) = concat chunks"
    by (simp add: completed_def inbound_run_complete body_bytes_def)
  show "requestBodyBuffer (completed chunks) =
      (if concat chunks = [] then None else Some (concat chunks))"
    by (simp add: completed_def inbound_run_complete)
  show "requestBodyBuffer (completed []) = None"
    by (simp add: completed_def new_accumulator_def on_end_def)
  show "fst (inbound_run later (completed chunks)) = completed chunks"
    if "concat chunks \<noteq> []" for later
  proof (rule inbound_run_after_body)
    show "requestBodyArrayOfBuffers (completed chunks) = None"
      using that by (simp add: completed_def inbound_run_complete)
    show "requestBodyBufferSize (completed chunks) > 0"
      using that by (simp add: completed_def inbound_run_complete)
  qed
  show "fst (inbound_run (replicate k End_of_stream) (completed chunks)) = completed chunks" for k
  proof (cases "concat chunks = []")
    case True
    then have "requestBodyBufferSize (completed chunks) = 0"
      by (simp add: completed_def inbound_run_complete)
    then show ?thesis
      by (rule inbound_run_end_again)
  next
    case False
    then have "requestBodyArrayOfBuffers (completed chunks) = None"
      and "requestBodyBufferSize (completed chunks) > 0"
      by (simp_all add: completed_def inbound_run_complete)
    then show ?thesis
      by (rule inbound_run_after_body)
  qed
qed

theorem C7_body_accumulator_witness:
  "concat [''ab'', [], ''cde''] \<noteq> []
   \<and> requestBodyBuffer (completed [''ab'', [], ''cde'']) = Some ''abcde''
   \<and> fst (inbound_run [Data ''x'', End_of_stream] (completed [''ab'', [], ''cde'']))
       = completed [''ab'', [], ''cde'']"
proof -
  let ?cs = "[''ab'', [], ''cde'']"
  have ne: "concat ?cs \<noteq> []"
    by simp
  have a: "requestBodyBuffer (completed ?cs) =
      (if concat ?cs = [] then None else Some (concat ?cs))"
    and b: "concat ?cs \<noteq> [] \<longrightarrow>
      (\<forall>later. fst (inbound_run later (completed ?cs)) = completed ?cs)"
    using C7_body_accumulator [of ?cs] by blast+
  from b ne have "fst (inbound_run [Data ''x'', End_of_stream] (completed ?cs)) = completed ?cs"
    by blast
  moreover from a have "requestBodyBuffer (completed ?cs) = Some ''abcde''"
    by simp
  ultimately show ?thesis
    using ne by blast
qed

section \<open>The regular expressions of \<open>regexes.js\<close>\<close>

text \<open>
  The fragment of JavaScript regular expressions that \<open>regexes.js\<close> uses: character
  classes and literals (\<open>Class\<close>, the list of the characters accepted), sequence,
  alternation, \<open>r*\<close> and \<open>r?\<close>; \<open>r+\<close> is \<open>OneOrMore r\<close> and \<open>r{1,2}\<close> is \<open>r r?\<close>. \<open>Eps\<close> and
  \<open>Empty\<close> only arise as derivatives. Every expression of the file is anchored by
  \<open>^\<close> and \<open>$\<close> and has no flag, so \<open>test\<close> is a match of the whole string; it is decided by
  taking the derivative of the expression by each character in turn.
\<close>

datatype regex =
    Empty
  | Eps
  | Class string
  | Cat regex regex
  | Alt regex regex
  | Star regex
  | Opt regex

fun nullable :: "regex \<Rightarrow> bool" where
  "nullable Empty = False"
| "nullable Eps = True"
| "nullable (Class cs) = False"
| "nullable (Cat r s) = (nullable r \<and> nullable s)"
| "nullable (Alt r s) = (nullable r \<or> nullable s)"
| "nullable (Star r) = True"
| "nullable (Opt r) = True"

fun deriv :: "char \<Rightarrow> regex \<Rightarrow> regex" where
  "deriv c Empty = Empty"
| "deriv c Eps = Empty"
| "deriv c (Class cs) = (if c \<in> set cs then Eps else Empty)"
| "deriv c (Cat r s) =
     (if nullable r then Alt (Cat (deriv c r) s) (deriv c s) else Cat (deriv c r) s)"
| "deriv c (Alt r s) = Alt (deriv c r) (deriv c s)"
| "deriv c (Star r) = Cat (deriv c r) (Star r)"
| "deriv c (Opt r) = deriv c r"

fun derivs :: "string \<Rightarrow> regex \<Rightarrow> regex" where
  "derivs [] r = r"
| "derivs (c # cs) r = derivs cs (deriv c r)"

definition test :: "regex \<Rightarrow> string \<Rightarrow> bool" where
  "test r s = nullable (derivs s r)"

definition OneOrMore :: "regex \<Rightarrow> regex" where
  "OneOrMore r = Cat r (Star r)"

definition digit :: regex where
  "digit = Class ''0123456789''"

definition letter :: regex where
  "letter = Class ''abcdefghijklmnopqrstuvwxyzABCDEFGHIJKLMNOPQRSTUVWXYZ''"

definition alnum :: regex where
  "alnum = Class ''abcdefghijklmnopqrstuvwxyzABCDEFGHIJKLMNOPQRSTUVWXYZ0123456789''"

definition alnum_hyphen :: regex where
  "alnum_hyphen = Class ''abcdefghijklmnopqrstuvwxyzABCDEFGHIJKLMNOPQRSTUVWXYZ0123456789-''"

text \<open>\<open>(?:1?[0-9]{1,2}|2[0-4][0-9]|25[0-5])\<close>\<close>

definition octet :: regex where
  "octet =
     Alt (Cat (Opt (Class ''1'')) (Cat digit (Opt digit)))
       (Alt (Cat (Class ''2'') (Cat (Class ''01234'') digit))
            (Cat (Class ''2'') (Cat (Class ''5'') (Class ''012345''))))"

definition dot :: regex where
  "dot = Class ''.''"

definition IPV4_ADDRESS :: regex where
  "IPV4_ADDRESS = Cat octet (Cat dot (Cat octet (Cat dot (Cat octet (Cat dot octet)))))"

text \<open>\<open>(?:[a-zA-Z0-9]|[a-zA-Z0-9][a-zA-Z0-9\-]*[a-zA-Z0-9])\<close>\<close>

definition label :: regex where
  "label = Alt alnum (Cat alnum (Cat (Star alnum_hyphen) alnum))"

definition HOST_NAME :: regex where
  "HOST_NAME = label"

definition FQDN :: regex where
  "FQDN = Cat (OneOrMore (Cat label dot)) (OneOrMore letter)"


section \<open>The server and its constructor\<close>

text \<open>
  A JavaScript value as far as the constructor tells values apart: \<open>typeof\<close> and
  \<open>Number.isInteger\<close>. A number with an integral value is \<open>JInt\<close>; any other number (a
  fraction, \<open>NaN\<close>, an infinity) is \<open>JNonInteger\<close>; \<open>JObject\<close> stands for objects and arrays.
\<close>

datatype js_value =
    JUndefined
  | JNull
  | JBool bool
  | JInt int
  | JNonInteger
  | JString string
  | JObject

datatype server_error =
    ERROR_HTTP_TEST_SERVER_HOST_TYPE_INVALID
  | ERROR_HTTP_TEST_SERVER_HOST_INVALID
  | ERROR_HTTP_TEST_SERVER_PORT_TYPE_INVALID
  | ERROR_HTTP_TEST_SERVER_PORT_OUT_OF_BOUNDS
  | ERROR_HTTP_TEST_SERVER_NOT_IN_STARTABLE_STATE
  | ERROR_HTTP_TEST_SERVER_NOT_IN_STOPPABLE_STATE

datatype server_state = CREATED | STARTING | LISTENING | STOPPING | STOPPED

text \<open>
  A promise of the lifecycle is an index into the list of the promises created so far.
  \<open>createErrorFromSystemErrorCode(code)\<close> is the error \<open>SystemError code\<close>.
\<close>

datatype system_error = SystemError string

datatype promise = Pending | Resolved server_state | Rejected system_error

text \<open>
  The listeners that the class registers on the underlying \<open>http.Server\<close>: the
  \<open>"request"\<close> listener of the constructor, and the \<open>once\<close> listeners of \<open>start()\<close> and
  \<open>stop()\<close>, each with the variables its closure captured (the promise it settles, and
  for the error listeners \<open>previousState\<close>).
\<close>

datatype listener =
    OnRequest
  | OnceListening nat
  | OnceStartError server_state nat
  | OnceClose nat
  | OnceStopError server_state nat

record server =
  listeners :: "listener list"
  listen_calls :: "(int \<times> string) list"
  close_calls :: nat
  serverHost :: string
  serverPort :: int
  serverState :: server_state
  serverStartPromise :: "nat option"
  serverStopPromise :: "nat option"
  promises :: "promise list"

definition SERVER_PORT :: int where
  "SERVER_PORT = 8080"

definition SERVER_HOST :: string where
  "SERVER_HOST = ''127.0.0.1''"

record options =
  opt_serverHost :: js_value
  opt_serverPort :: js_value

text \<open>A destructuring default applies when the property is \<open>undefined\<close> (or absent).\<close>

definition default_to :: "js_value \<Rightarrow> js_value \<Rightarrow> js_value" where
  "default_to d v = (if v = JUndefined then d else v)"

definition Number_isInteger :: "js_value \<Rightarrow> bool" where
  "Number_isInteger v = (case v of JInt n \<Rightarrow> True | _ \<Rightarrow> False)"

text \<open>
  The constructor. The second component counts the calls of \<open>http.createServer()\<close>, the
  only place where the class creates a server resource: \<open>n\<close> before the call of the
  constructor, the result after it.
\<close>

definition constructor :: "options \<Rightarrow> nat \<Rightarrow> (server_error + server) \<times> nat" where
  "constructor opts n =
     (let host = default_to (JString SERVER_HOST) (opt_serverHost opts);
          port = default_to (JInt SERVER_PORT) (opt_serverPort opts)
      in case host of
           JString h \<Rightarrow>
             if \<not> test IPV4_ADDRESS h \<and> \<not> test HOST_NAME h \<and> \<not> test FQDN h
             then (Inl ERROR_HTTP_TEST_SERVER_HOST_INVALID, n)
             else if \<not> Number_isInteger port
             then (Inl ERROR_HTTP_TEST_SERVER_PORT_TYPE_INVALID, n)
             else (case port of
                     JInt p \<Rightarrow>
                       if p < 0 \<or> p > 65535
                       then (Inl ERROR_HTTP_TEST_SERVER_PORT_OUT_OF_BOUNDS, n)
                       else (Inr \<lparr>listeners = [OnRequest], listen_calls = [], close_calls = 0,
                                  serverHost = h, serverPort = p, serverState = CREATED,
                                  serverStartPromise = None, serverStopPromise = None,
                                  promises = []\<rparr>, Suc n)
                   | _ \<Rightarrow> (Inl ERROR_HTTP_TEST_SERVER_PORT_TYPE_INVALID, n))
         | _ \<Rightarrow> (Inl ERROR_HTTP_TEST_SERVER_HOST_TYPE_INVALID, n))"

text \<open>What the claims call a host and a port of the right type and form.\<close>

definition is_string :: "js_value \<Rightarrow> bool" where
  "is_string v = (case v of JString s \<Rightarrow> True | _ \<Rightarrow> False)"

definition host_syntax_ok :: "js_value \<Rightarrow> bool" where
  "host_syntax_ok v =
     (case v of JString h \<Rightarrow> test IPV4_ADDRESS h \<or> test HOST_NAME h \<or> test FQDN h
      | _ \<Rightarrow> False)"

definition port_in_range :: "js_value \<Rightarrow> bool" where
  "port_in_range v = (case v of JInt p \<Rightarrow> 0 \<le> p \<and> p \<le> 65535 | _ \<Rightarrow> False)"

definition given_host :: "options \<Rightarrow> js_value" where
  "given_host opts = default_to (JString SERVER_HOST) (opt_serverHost opts)"

definition given_port :: "options \<Rightarrow> js_value" where
  "given_port opts = default_to (JInt SERVER_PORT) (opt_serverPort opts)"

section \<open>The lifecycle: \<open>start()\<close>, \<open>stop()\<close> and the events of the underlying server\<close>

text \<open>
  The events that the underlying \<open>http.Server\<close> emits to the listeners of the lifecycle:
  \<open>"listening"\<close> (with the address and port that \<open>address()\<close> then returns), \<open>"error"\<close> (with the
  code of the system error) and \<open>"close"\<close>.
\<close>

datatype server_event = Ev_listening string int | Ev_error string | Ev_close

fun listens_to :: "server_event \<Rightarrow> listener \<Rightarrow> bool" where
  "listens_to (Ev_listening address port) (OnceListening p) = True"
| "listens_to (Ev_error code) (OnceStartError previousState p) = True"
| "listens_to (Ev_error code) (OnceStopError previousState p) = True"
| "listens_to Ev_close (OnceClose p) = True"
| "listens_to _ _ = False"

text \<open>\<open>resolve\<close> and \<open>reject\<close> settle a pending promise and leave a settled one as it is.\<close>

definition settle :: "nat \<Rightarrow> promise \<Rightarrow> promise list \<Rightarrow> promise list" where
  "settle p v ps = (if p < length ps \<and> ps ! p = Pending then ps[p := v] else ps)"

fun call_listener :: "server_event \<Rightarrow> listener \<Rightarrow> server \<Rightarrow> server" where
  "call_listener (Ev_listening address port) (OnceListening p) s =
     (let s1 = s\<lparr>serverHost := address\<rparr>;
          s2 = s1\<lparr>serverPort := port\<rparr>;
          s3 = s2\<lparr>serverState := LISTENING\<rparr>
      in s3\<lparr>promises := settle p (Resolved (serverState s3)) (promises s3)\<rparr>)"
| "call_listener (Ev_error code) (OnceStartError previousState p) s =
     (let s1 = s\<lparr>serverState := previousState\<rparr>
      in s1\<lparr>promises := settle p (Rejected (SystemError code)) (promises s1)\<rparr>)"
| "call_listener Ev_close (OnceClose p) s =
     (let s1 = s\<lparr>serverState := STOPPED\<rparr>
      in s1\<lparr>promises := settle p (Resolved (serverState s1)) (promises s1)\<rparr>)"
| "call_listener (Ev_error code) (OnceStopError previousState p) s =
     (let s1 = s\<lparr>serverState := previousState\<rparr>
      in s1\<lparr>promises := settle p (Rejected (SystemError code)) (promises s1)\<rparr>)"
| "call_listener _ _ s = s"

text \<open>
  \<open>emit\<close>: the listeners of the event are called in the order of their registration; all
  of them were registered with \<open>once\<close>, so each is removed as it is called.
\<close>

definition emit :: "server_event \<Rightarrow> server \<Rightarrow> server" where
  "emit ev s =
     fold (call_listener ev) (filter (listens_to ev) (listeners s))
       (s\<lparr>listeners := filter (\<lambda>l. \<not> listens_to ev l) (listeners s)\<rparr>)"

text \<open>
  \<open>start()\<close> returns the promise (the variable may hold \<open>null\<close>) and the server after the
  call, or throws. The new promise is the next index of \<open>promises\<close>; its executor runs
  at once: it registers the two listeners and calls \<open>listen\<close>.
\<close>

definition start :: "server \<Rightarrow> server_error + (nat option \<times> server)" where
  "start s =
     (if serverState s = STARTING \<or> serverState s = LISTENING then Inr (serverStartPromise s, s)
      else if serverState s \<noteq> CREATED \<and> serverState s \<noteq> STOPPED
      then Inl ERROR_HTTP_TEST_SERVER_NOT_IN_STARTABLE_STATE
      else
        (let previousState = serverState s;
             s1 = s\<lparr>serverState := STARTING\<rparr>;
             p = length (promises s1);
             s2 = s1\<lparr>promises := promises s1 @ [Pending]\<rparr>;
             s3 = s2\<lparr>listeners := listeners s2 @ [OnceListening p]\<rparr>;
             s4 = s3\<lparr>listeners := listeners s3 @ [OnceStartError previousState p]\<rparr>;
             s5 = s4\<lparr>listen_calls := listen_calls s4 @ [(serverPort s4, serverHost s4)]\<rparr>;
             s6 = s5\<lparr>serverStartPromise := Some p\<rparr>
         in Inr (serverStartPromise s6, s6)))"

definition stop :: "server \<Rightarrow> server_error + (nat option \<times> server)" where
  "stop s =
     (if serverState s = STOPPING \<or> serverState s = STOPPED then Inr (serverStopPromise s, s)
      else if serverState s \<noteq> LISTENING
      then Inl ERROR_HTTP_TEST_SERVER_NOT_IN_STOPPABLE_STATE
      else
        (let previousState = serverState s;
             s1 = s\<lparr>serverState := STOPPING\<rparr>;
             p = length (promises s1);
             s2 = s1\<lparr>promises := promises s1 @ [Pending]\<rparr>;
             s3 = s2\<lparr>listeners := listeners s2 @ [OnceClose p]\<rparr>;
             s4 = s3\<lparr>listeners := listeners s3 @ [OnceStopError previousState p]\<rparr>;
             s5 = s4\<lparr>close_calls := Suc (close_calls s4)\<rparr>;
             s6 = s5\<lparr>serverStopPromise := Some p\<rparr>
         in Inr (serverStopPromise s6, s6)))"

text \<open>The server after a call that did not throw.\<close>

definition after :: "server_error + (nat option \<times> server) \<Rightarrow> server \<Rightarrow> server" where
  "after r s = (case r of Inl e \<Rightarrow> s | Inr (p, s') \<Rightarrow> s')"


section \<open>Properties of the constructor\<close>

lemma constructor_host_type:
  "\<not> is_string (given_host opts) \<Longrightarrow>
   constructor opts n = (Inl ERROR_HTTP_TEST_SERVER_HOST_TYPE_INVALID, n)"
  by (cases "given_host opts") (simp_all add: constructor_def given_host_def is_string_def)

lemma constructor_host_invalid:
  "is_string (given_host opts) \<Longrightarrow> \<not> host_syntax_ok (given_host opts) \<Longrightarrow>
   constructor opts n = (Inl ERROR_HTTP_TEST_SERVER_HOST_INVALID, n)"
  by (cases "given_host opts")
    (simp_all add: constructor_def given_host_def is_string_def host_syntax_ok_def)

lemma constructor_port_type:
  "host_syntax_ok (given_host opts) \<Longrightarrow> \<not> Number_isInteger (given_port opts) \<Longrightarrow>
   constructor opts n = (Inl ERROR_HTTP_TEST_SERVER_PORT_TYPE_INVALID, n)"
  by (cases "given_host opts")
    (auto simp add: constructor_def given_host_def given_port_def host_syntax_ok_def)

lemma constructor_port_bounds:
  "host_syntax_ok (given_host opts) \<Longrightarrow> Number_isInteger (given_port opts) \<Longrightarrow>
   \<not> port_in_range (given_port opts) \<Longrightarrow>
   constructor opts n = (Inl ERROR_HTTP_TEST_SERVER_PORT_OUT_OF_BOUNDS, n)"
  by (cases "given_host opts"; cases "given_port opts")
    (auto simp add: constructor_def given_host_def given_port_def host_syntax_ok_def
      port_in_range_def Number_isInteger_def)

lemma constructor_valid:
  "host_syntax_ok (given_host opts) \<Longrightarrow> port_in_range (given_port opts) \<Longrightarrow>
   \<exists>srv. constructor opts n = (Inr srv, Suc n) \<and> serverState srv = CREATED
     \<and> JString (serverHost srv) = given_host opts \<and> JInt (serverPort srv) = given_port opts
     \<and> listen_calls srv = []"
  by (cases "given_host opts"; cases "given_port opts")
    (auto simp add: constructor_def given_host_def given_port_def host_syntax_ok_def
      port_in_range_def Number_isInteger_def)

text \<open>
  Claim C8. The host and the port are the options passed, or the defaults where an option
  is \<open>undefined\<close>. If the host is not a string, or is a string that matches none of the
  three syntaxes, or the port is not an integer, or is an integer outside 0 to 65535, the
  constructor throws: the error is the one of the first of these four checks that fails,
  in this order, and \<open>http.createServer()\<close> has not been called (the count is unchanged).
  For every valid pair the constructor returns an instance in state \<open>CREATED\<close> that holds
  the host and the port, after one call of \<open>http.createServer()\<close> and no call of \<open>listen\<close>.
\<close>

theorem C8_constructor:
  "(\<not> is_string (given_host opts) \<longrightarrow>
      constructor opts n = (Inl ERROR_HTTP_TEST_SERVER_HOST_TYPE_INVALID, n))
   \<and> (is_string (given_host opts) \<and> \<not> host_syntax_ok (given_host opts) \<longrightarrow>
      constructor opts n = (Inl ERROR_HTTP_TEST_SERVER_HOST_INVALID, n))
   \<and> (host_syntax_ok (given_host opts) \<and> \<not> Number_isInteger (given_port opts) \<longrightarrow>
      constructor opts n = (Inl ERROR_HTTP_TEST_SERVER_PORT_TYPE_INVALID, n))
   \<and> (host_syntax_ok (given_host opts) \<and> Number_isInteger (given_port opts)
        \<and> \<not> port_in_range (given_port opts) \<longrightarrow>
      constructor opts n = (Inl ERROR_HTTP_TEST_SERVER_PORT_OUT_OF_BOUNDS, n))
   \<and> (\<not> is_string (given_host opts) \<or> \<not> host_syntax_ok (given_host opts)
        \<or> \<not> Number_isInteger (given_port opts) \<or> \<not> port_in_range (given_port opts) \<longrightarrow>
      (\<exists>e. constructor opts n = (Inl e, n)
         \<and> e \<in> {ERROR_HTTP_TEST_SERVER_HOST_TYPE_INVALID, ERROR_HTTP_TEST_SERVER_HOST_INVALID,
                ERROR_HTTP_TEST_SERVER_PORT_TYPE_INVALID,
                ERROR_HTTP_TEST_SERVER_PORT_OUT_OF_BOUNDS}))
   \<and> (host_syntax_ok (given_host opts) \<and> port_in_range (given_port opts) \<longrightarrow>
      (\<exists>srv. constructor opts n = (Inr srv, Suc n) \<and> serverState srv = CREATED
         \<and> JString (serverHost srv) = given_host opts
         \<and> JInt (serverPort srv) = given_port opts \<and> listen_calls srv = []))"
proof (intro conjI impI)
  assume "\<not> is_string (given_host opts)"
  then show "constructor opts n = (Inl ERROR_HTTP_TEST_SERVER_HOST_TYPE_INVALID, n)"
    by (rule constructor_host_type)
next
  assume "is_string (given_host opts) \<and> \<not> host_syntax_ok (given_host opts)"
  then show "constructor opts n = (Inl ERROR_HTTP_TEST_SERVER_HOST_INVALID, n)"
    by (simp add: constructor_host_invalid)
next
  assume "host_syntax_ok (given_host opts) \<and> \<not> Number_isInteger (given_port opts)"
  then show "constructor opts n = (Inl ERROR_HTTP_TEST_SERVER_PORT_TYPE_INVALID, n)"
    by (simp add: constructor_port_type)
next
  assume "host_syntax_ok (given_host opts) \<and> Number_isInteger (given_port opts)
    \<and> \<not> port_in_range (given_port opts)"
  then show "constructor opts n = (Inl ERROR_HTTP_TEST_SERVER_PORT_OUT_OF_BOUNDS, n)"
    by (simp add: constructor_port_bounds)
next
  assume bad: "\<not> is_string (given_host opts) \<or> \<not> host_syntax_ok (given_host opts)
    \<or> \<not> Number_isInteger (given_port opts) \<or> \<not> port_in_range (given_port opts)"
  show "\<exists>e. constructor opts n = (Inl e, n)
    \<and> e \<in> {ERROR_HTTP_TEST_SERVER_HOST_TYPE_INVALID, ERROR_HTTP_TEST_SERVER_HOST_INVALID,
           ERROR_HTTP_TEST_SERVER_PORT_TYPE_INVALID, ERROR_HTTP_TEST_SERVER_PORT_OUT_OF_BOUNDS}"
  proof (cases "is_string (given_host opts)")
    case False
    then show ?thesis
      by (simp add: constructor_host_type)
  next
    case str: True
    show ?thesis
    proof (cases "host_syntax_ok (given_host opts)")
      case False
      with str show ?thesis
        by (simp add: constructor_host_invalid)
    next
      case host: True
      show ?thesis
      proof (cases "Number_isInteger (given_port opts)")
        case False
        with host show ?thesis
          by (simp add: constructor_port_type)
      next
        case True
        with host str bad have "\<not> port_in_range (given_port opts)"
          by blast
        with host True show ?thesis
          by (simp add: constructor_port_bounds)
      qed
    qed
  qed
next
  assume "host_syntax_ok (given_host opts) \<and> port_in_range (given_port opts)"
  then show "\<exists>srv. constructor opts n = (Inr srv, Suc n) \<and> serverState srv = CREATED
    \<and> JString (serverHost srv) = given_host opts
    \<and> JInt (serverPort srv) = given_port opts \<and> listen_calls srv = []"
    by (simp add: constructor_valid)
qed

theorem C8_constructor_witness:
  "constructor \<lparr>opt_serverHost = JInt 1234, opt_serverPort = JUndefined\<rparr> 0
     = (Inl ERROR_HTTP_TEST_SERVER_HOST_TYPE_INVALID, 0)
   \<and> constructor \<lparr>opt_serverHost = JString ''192.168.0.256'', opt_serverPort = JUndefined\<rparr> 0
     = (Inl ERROR_HTTP_TEST_SERVER_HOST_INVALID, 0)
   \<and> constructor \<lparr>opt_serverHost = JUndefined, opt_serverPort = JNonInteger\<rparr> 0
     = (Inl ERROR_HTTP_TEST_SERVER_PORT_TYPE_INVALID, 0)
   \<and> constructor \<lparr>opt_serverHost = JString ''www.hostname.com'', opt_serverPort = JInt 65536\<rparr> 0
     = (Inl ERROR_HTTP_TEST_SERVER_PORT_OUT_OF_BOUNDS, 0)
   \<and> (\<exists>srv. constructor \<lparr>opt_serverHost = JString ''127.0.0.1'', opt_serverPort = JInt 0\<rparr> 0
          = (Inr srv, 1) \<and> serverState srv = CREATED \<and> serverPort srv = 0)"
proof -
  let ?o1 = "\<lparr>opt_serverHost = JInt 1234, opt_serverPort = JUndefined\<rparr>"
  let ?o2 = "\<lparr>opt_serverHost = JString ''192.168.0.256'', opt_serverPort = JUndefined\<rparr>"
  let ?o3 = "\<lparr>opt_serverHost = JUndefined, opt_serverPort = JNonInteger\<rparr>"
  let ?o4 = "\<lparr>opt_serverHost = JString ''www.hostname.com'', opt_serverPort = JInt 65536\<rparr>"
  let ?o5 = "\<lparr>opt_serverHost = JString ''127.0.0.1'', opt_serverPort = JInt 0\<rparr>"
  have h1: "\<not> is_string (given_host ?o1)"
    by code_simp
  have h2: "is_string (given_host ?o2) \<and> \<not> host_syntax_ok (given_host ?o2)"
    by code_simp
  have h3: "host_syntax_ok (given_host ?o3) \<and> \<not> Number_isInteger (given_port ?o3)"
    by code_simp
  have h4: "host_syntax_ok (given_host ?o4) \<and> Number_isInteger (given_port ?o4)
      \<and> \<not> port_in_range (given_port ?o4)"
    by code_simp
  have h5: "host_syntax_ok (given_host ?o5) \<and> port_in_range (given_port ?o5)"
    by code_simp
  have g5: "given_port ?o5 = JInt 0"
    by (simp add: given_port_def default_to_def)
  have c1: "constructor ?o1 0 = (Inl ERROR_HTTP_TEST_SERVER_HOST_TYPE_INVALID, 0)"
    using C8_constructor [of ?o1 0] h1 by blast
  have c2: "constructor ?o2 0 = (Inl ERROR_HTTP_TEST_SERVER_HOST_INVALID, 0)"
    using C8_constructor [of ?o2 0] h2 by blast
  have c3: "constructor ?o3 0 = (Inl ERROR_HTTP_TEST_SERVER_PORT_TYPE_INVALID, 0)"
    using C8_constructor [of ?o3 0] h3 by blast
  have c4: "constructor ?o4 0 = (Inl ERROR_HTTP_TEST_SERVER_PORT_OUT_OF_BOUNDS, 0)"
    using C8_constructor [of ?o4 0] h4 by blast
  have "\<exists>srv. constructor ?o5 0 = (Inr srv, Suc 0) \<and> serverState srv = CREATED
      \<and> JString (serverHost srv) = given_host ?o5
      \<and> JInt (serverPort srv) = given_port ?o5 \<and> listen_calls srv = []"
    using C8_constructor [of ?o5 0] h5 by blast
  then have c5: "\<exists>srv. constructor ?o5 0 = (Inr srv, 1) \<and> serverState srv = CREATED
      \<and> serverPort srv = 0"
    unfolding g5 by auto
  from c1 c2 c3 c4 c5 show ?thesis
    by (intro conjI)
qed

section \<open>Properties of the lifecycle\<close>

text \<open>The value with which every listener of an event settles its promise.\<close>

fun outcome :: "server_event \<Rightarrow> promise" where
  "outcome (Ev_listening address port) = Resolved LISTENING"
| "outcome (Ev_error code) = Rejected (SystemError code)"
| "outcome Ev_close = Resolved STOPPED"

lemma length_settle: "length (settle q v ps) = length ps"
  by (simp add: settle_def)

lemma nth_settle:
  "settle q v ps ! p = (if q = p \<and> p < length ps \<and> ps ! p = Pending then v else ps ! p)"
  by (auto simp add: settle_def nth_list_update)

lemma call_listener_promises:
  "length (promises (call_listener ev l s)) = length (promises s)
   \<and> (promises (call_listener ev l s) ! p = promises s ! p
      \<or> promises s ! p = Pending \<and> promises (call_listener ev l s) ! p = outcome ev)"
  by (cases ev; cases l) (simp_all add: Let_def length_settle nth_settle)

lemma fold_call_listener_promises:
  "length (promises (fold (call_listener ev) ls s)) = length (promises s)
   \<and> (promises (fold (call_listener ev) ls s) ! p = promises s ! p
      \<or> promises s ! p = Pending \<and> promises (fold (call_listener ev) ls s) ! p = outcome ev)"
proof (induction ls arbitrary: s)
  case Nil
  then show ?case by simp
next
  case (Cons l ls)
  from Cons.IH [of "call_listener ev l s"] call_listener_promises [of ev l s p]
  show ?case
    by auto
qed

lemma emit_last:
  assumes "listeners s = ls @ [l]" and "listens_to ev l"
  shows "emit ev s =
    call_listener ev l (fold (call_listener ev) (filter (listens_to ev) ls)
      (s\<lparr>listeners := filter (\<lambda>l. \<not> listens_to ev l) ls\<rparr>))"
  using assms by (simp add: emit_def)

lemma emit_last_but_one:
  assumes "listeners s = ls @ [l, l']" and "listens_to ev l" and "\<not> listens_to ev l'"
  shows "emit ev s =
    call_listener ev l (fold (call_listener ev) (filter (listens_to ev) ls)
      (s\<lparr>listeners := filter (\<lambda>l. \<not> listens_to ev l) ls @ [l']\<rparr>))"
  using assms by (simp add: emit_def)

lemma start_new:
  assumes "serverState s = CREATED \<or> serverState s = STOPPED"
  shows "start s = Inr (Some (length (promises s)),
    s\<lparr>serverState := STARTING, promises := promises s @ [Pending],
      listeners := listeners s @
        [OnceListening (length (promises s)), OnceStartError (serverState s) (length (promises s))],
      listen_calls := listen_calls s @ [(serverPort s, serverHost s)],
      serverStartPromise := Some (length (promises s))\<rparr>)"
  using assms by (auto simp add: start_def Let_def)

lemma stop_new:
  assumes "serverState s = LISTENING"
  shows "stop s = Inr (Some (length (promises s)),
    s\<lparr>serverState := STOPPING, promises := promises s @ [Pending],
      listeners := listeners s @
        [OnceClose (length (promises s)), OnceStopError (serverState s) (length (promises s))],
      close_calls := Suc (close_calls s),
      serverStopPromise := Some (length (promises s))\<rparr>)"
  using assms by (auto simp add: stop_def Let_def)

text \<open>
  A server whose last two listeners are the two of a call of \<open>start()\<close> or \<open>stop()\<close> for the
  pending promise \<open>p\<close>: what the event of the first and the event of the second do.
\<close>

lemma emit_first_of_pair:
  assumes ls: "listeners s = ls @ [l, l']"
    and l: "listens_to ev l" and l': "\<not> listens_to ev l'"
    and p: "p < length (promises s)" "promises s ! p = Pending"
  shows "\<exists>m. emit ev s = call_listener ev l m \<and> length (promises m) = length (promises s)
    \<and> (promises m ! p = Pending \<or> promises m ! p = outcome ev)"
proof -
  let ?s0 = "s\<lparr>listeners := filter (\<lambda>l. \<not> listens_to ev l) ls @ [l']\<rparr>"
  let ?m = "fold (call_listener ev) (filter (listens_to ev) ls) ?s0"
  have "emit ev s = call_listener ev l ?m"
    using ls l l' by (rule emit_last_but_one)
  moreover have "length (promises ?m) = length (promises s)
    \<and> (promises ?m ! p = Pending \<or> promises ?m ! p = outcome ev)"
    using fold_call_listener_promises [of ev "filter (listens_to ev) ls" ?s0 p] p by auto
  ultimately show ?thesis
    by blast
qed

lemma emit_second_of_pair:
  assumes ls: "listeners s = ls @ [l', l]"
    and l: "listens_to ev l"
    and p: "p < length (promises s)" "promises s ! p = Pending"
  shows "\<exists>m. emit ev s = call_listener ev l m \<and> length (promises m) = length (promises s)
    \<and> (promises m ! p = Pending \<or> promises m ! p = outcome ev)"
proof -
  let ?ls = "ls @ [l']"
  let ?s0 = "s\<lparr>listeners := filter (\<lambda>l. \<not> listens_to ev l) ?ls\<rparr>"
  let ?m = "fold (call_listener ev) (filter (listens_to ev) ?ls) ?s0"
  have "listeners s = ?ls @ [l]"
    using ls by simp
  then have "emit ev s = call_listener ev l ?m"
    using l by (rule emit_last)
  moreover have "length (promises ?m) = length (promises s)
    \<and> (promises ?m ! p = Pending \<or> promises ?m ! p = outcome ev)"
    using fold_call_listener_promises [of ev "filter (listens_to ev) ?ls" ?s0 p] p by auto
  ultimately show ?thesis
    by blast
qed

lemma start_then_listening:
  assumes "serverState s = CREATED \<or> serverState s = STOPPED"
  defines "s' \<equiv> after (start s) s"
  shows "serverState (emit (Ev_listening address port) s') = LISTENING
    \<and> serverHost (emit (Ev_listening address port) s') = address
    \<and> serverPort (emit (Ev_listening address port) s') = port
    \<and> serverStartPromise (emit (Ev_listening address port) s') = Some (length (promises s))
    \<and> promises (emit (Ev_listening address port) s') ! length (promises s) = Resolved LISTENING"
proof -
  let ?p = "length (promises s)"
  let ?ev = "Ev_listening address port"
  have s': "s' = s\<lparr>serverState := STARTING, promises := promises s @ [Pending],
      listeners := listeners s @ [OnceListening ?p, OnceStartError (serverState s) ?p],
      listen_calls := listen_calls s @ [(serverPort s, serverHost s)],
      serverStartPromise := Some ?p\<rparr>"
    by (simp add: s'_def after_def start_new [OF assms(1)])
  have "\<exists>m. emit ?ev s' = call_listener ?ev (OnceListening ?p) m
      \<and> length (promises m) = length (promises s')
      \<and> (promises m ! ?p = Pending \<or> promises m ! ?p = outcome ?ev)"
  proof (rule emit_first_of_pair)
    show "listeners s' = listeners s @ [OnceListening ?p, OnceStartError (serverState s) ?p]"
      by (simp add: s')
  qed (simp_all add: s')
  then obtain m where m: "emit ?ev s' = call_listener ?ev (OnceListening ?p) m"
    "length (promises m) = Suc ?p" "promises m ! ?p = Pending \<or> promises m ! ?p = outcome ?ev"
    by (auto simp add: s')
  have "serverStartPromise (emit ?ev s') = Some ?p"
  proof -
    have "serverStartPromise (fold (call_listener ?ev) xs t) = serverStartPromise t" for xs t
    proof (induction xs arbitrary: t)
      case Nil
      then show ?case by simp
    next
      case (Cons x xs)
      have "serverStartPromise (call_listener ?ev x t) = serverStartPromise t"
        by (cases x) (simp_all add: Let_def)
      with Cons.IH [of "call_listener ?ev x t"] show ?case
        by simp
    qed
    then show ?thesis
      by (simp add: emit_def s')
  qed
  with m show ?thesis
    by (auto simp add: Let_def nth_settle)
qed

lemma start_then_error:
  assumes "serverState s = CREATED \<or> serverState s = STOPPED"
  defines "s' \<equiv> after (start s) s"
  shows "serverState (emit (Ev_error code) s') = serverState s
    \<and> promises (emit (Ev_error code) s') ! length (promises s) = Rejected (SystemError code)"
proof -
  let ?p = "length (promises s)"
  let ?ev = "Ev_error code"
  have s': "s' = s\<lparr>serverState := STARTING, promises := promises s @ [Pending],
      listeners := listeners s @ [OnceListening ?p, OnceStartError (serverState s) ?p],
      listen_calls := listen_calls s @ [(serverPort s, serverHost s)],
      serverStartPromise := Some ?p\<rparr>"
    by (simp add: s'_def after_def start_new [OF assms(1)])
  have "\<exists>m. emit ?ev s' = call_listener ?ev (OnceStartError (serverState s) ?p) m
      \<and> length (promises m) = length (promises s')
      \<and> (promises m ! ?p = Pending \<or> promises m ! ?p = outcome ?ev)"
  proof (rule emit_second_of_pair)
    show "listeners s' = listeners s @ [OnceListening ?p, OnceStartError (serverState s) ?p]"
      by (simp add: s')
  qed (simp_all add: s')
  then obtain m where m: "emit ?ev s' = call_listener ?ev (OnceStartError (serverState s) ?p) m"
    "length (promises m) = Suc ?p" "promises m ! ?p = Pending \<or> promises m ! ?p = outcome ?ev"
    by (auto simp add: s')
  then show ?thesis
    by (auto simp add: Let_def nth_settle)
qed

lemma stop_then_close:
  assumes "serverState s = LISTENING"
  defines "s' \<equiv> after (stop s) s"
  shows "serverState (emit Ev_close s') = STOPPED
    \<and> promises (emit Ev_close s') ! length (promises s) = Resolved STOPPED"
proof -
  let ?p = "length (promises s)"
  have s': "s' = s\<lparr>serverState := STOPPING, promises := promises s @ [Pending],
      listeners := listeners s @ [OnceClose ?p, OnceStopError (serverState s) ?p],
      close_calls := Suc (close_calls s), serverStopPromise := Some ?p\<rparr>"
    by (simp add: s'_def after_def stop_new [OF assms(1)])
  have "\<exists>m. emit Ev_close s' = call_listener Ev_close (OnceClose ?p) m
      \<and> length (promises m) = length (promises s')
      \<and> (promises m ! ?p = Pending \<or> promises m ! ?p = outcome Ev_close)"
  proof (rule emit_first_of_pair)
    show "listeners s' = listeners s @ [OnceClose ?p, OnceStopError (serverState s) ?p]"
      by (simp add: s')
  qed (simp_all add: s')
  then obtain m where m: "emit Ev_close s' = call_listener Ev_close (OnceClose ?p) m"
    "length (promises m) = Suc ?p" "promises m ! ?p = Pending \<or> promises m ! ?p = outcome Ev_close"
    by (auto simp add: s')
  then show ?thesis
    by (auto simp add: Let_def nth_settle)
qed

lemma stop_then_error:
  assumes "serverState s = LISTENING"
  defines "s' \<equiv> after (stop s) s"
  shows "serverState (emit (Ev_error code) s') = LISTENING
    \<and> promises (emit (Ev_error code) s') ! length (promises s) = Rejected (SystemError code)"
proof -
  let ?p = "length (promises s)"
  let ?ev = "Ev_error code"
  have s': "s' = s\<lparr>serverState := STOPPING, promises := promises s @ [Pending],
      listeners := listeners s @ [OnceClose ?p, OnceStopError (serverState s) ?p],
      close_calls := Suc (close_calls s), serverStopPromise := Some ?p\<rparr>"
    by (simp add: s'_def after_def stop_new [OF assms(1)])
  have "\<exists>m. emit ?ev s' = call_listener ?ev (OnceStopError (serverState s) ?p) m
      \<and> length (promises m) = length (promises s')
      \<and> (promises m ! ?p = Pending \<or> promises m ! ?p = outcome ?ev)"
  proof (rule emit_second_of_pair)
    show "listeners s' = listeners s @ [OnceClose ?p, OnceStopError (serverState s) ?p]"
      by (simp add: s')
  qed (simp_all add: s')
  then obtain m where m: "emit ?ev s' = call_listener ?ev (OnceStopError (serverState s) ?p) m"
    "length (promises m) = Suc ?p" "promises m ! ?p = Pending \<or> promises m ! ?p = outcome ?ev"
    by (auto simp add: s')
  with assms(1) show ?thesis
    by (auto simp add: Let_def nth_settle)
qed

text \<open>
  The instance that the constructor returns for the default options, and the same
  instance once started: it listens, its start promise is resolved, and the error
  listener of that \<open>start()\<close> is still registered.
\<close>

definition created_server :: server where
  "created_server =
     \<lparr>listeners = [OnRequest], listen_calls = [], close_calls = 0,
      serverHost = ''127.0.0.1'', serverPort = 8080, serverState = CREATED,
      serverStartPromise = None, serverStopPromise = None, promises = []\<rparr>"

definition listening_server :: server where
  "listening_server =
     \<lparr>listeners = [OnRequest, OnceStartError CREATED 0], listen_calls = [(8080, ''127.0.0.1'')],
      close_calls = 0, serverHost = ''127.0.0.1'', serverPort = 8080, serverState = LISTENING,
      serverStartPromise = Some 0, serverStopPromise = None, promises = [Resolved LISTENING]\<rparr>"

text \<open>
  Claim C5. \<open>start()\<close> in state \<open>STARTING\<close> or \<open>LISTENING\<close> returns the start promise that the
  instance holds and changes nothing (no listener is added, \<open>listen\<close> is not called
  again). In any state other than \<open>CREATED\<close>, \<open>STOPPED\<close>, \<open>STARTING\<close> and \<open>LISTENING\<close>, that is
  in \<open>STOPPING\<close>, it throws the not-startable error. In \<open>CREATED\<close> or \<open>STOPPED\<close> it returns a
  new pending promise, the state is \<open>STARTING\<close>, \<open>listen\<close> has been called once with the
  recorded port and host, and a second call returns the same promise. When the server
  then emits \<open>"listening"\<close>, the state is \<open>LISTENING\<close>, the host and port are the bound address
  and port, the promise is resolved with \<open>LISTENING\<close>, and \<open>start()\<close> still returns it. When
  the server instead emits \<open>"error"\<close>, the state is the one held before the call and the
  promise is rejected with the error made from the system error code. Both hold
  whatever listeners of earlier calls are still registered.
\<close>

theorem C5_start:
  "(serverState s = STARTING \<or> serverState s = LISTENING \<longrightarrow>
      start s = Inr (serverStartPromise s, s))
   \<and> (serverState s \<noteq> CREATED \<and> serverState s \<noteq> STOPPED \<and> serverState s \<noteq> STARTING
        \<and> serverState s \<noteq> LISTENING \<longrightarrow>
      serverState s = STOPPING \<and> start s = Inl ERROR_HTTP_TEST_SERVER_NOT_IN_STARTABLE_STATE)
   \<and> (serverState s = STOPPING \<longrightarrow> start s = Inl ERROR_HTTP_TEST_SERVER_NOT_IN_STARTABLE_STATE)
   \<and> (serverState s = CREATED \<or> serverState s = STOPPED \<longrightarrow>
        start s = Inr (Some (length (promises s)), after (start s) s)
        \<and> serverState (after (start s) s) = STARTING
        \<and> promises (after (start s) s) = promises s @ [Pending]
        \<and> listen_calls (after (start s) s) = listen_calls s @ [(serverPort s, serverHost s)]
        \<and> start (after (start s) s) = Inr (Some (length (promises s)), after (start s) s)
        \<and> (\<forall>address port.
              let t = emit (Ev_listening address port) (after (start s) s)
              in serverState t = LISTENING \<and> serverHost t = address \<and> serverPort t = port
                 \<and> promises t ! length (promises s) = Resolved LISTENING
                 \<and> start t = Inr (Some (length (promises s)), t))
        \<and> (\<forall>code.
              let t = emit (Ev_error code) (after (start s) s)
              in serverState t = serverState s
                 \<and> promises t ! length (promises s) = Rejected (SystemError code)))"
proof (intro conjI impI allI)
  assume "serverState s = STARTING \<or> serverState s = LISTENING"
  then show "start s = Inr (serverStartPromise s, s)"
    by (simp add: start_def)
next
  assume a: "serverState s \<noteq> CREATED \<and> serverState s \<noteq> STOPPED \<and> serverState s \<noteq> STARTING
    \<and> serverState s \<noteq> LISTENING"
  then show "serverState s = STOPPING"
    by (cases "serverState s") simp_all
  from a show "start s = Inl ERROR_HTTP_TEST_SERVER_NOT_IN_STARTABLE_STATE"
    by (simp add: start_def)
next
  assume "serverState s = STOPPING"
  then show "start s = Inl ERROR_HTTP_TEST_SERVER_NOT_IN_STARTABLE_STATE"
    by (simp add: start_def)
next
  assume a: "serverState s = CREATED \<or> serverState s = STOPPED"
  note new = start_new [OF a]
  show "start s = Inr (Some (length (promises s)), after (start s) s)"
    by (simp add: new after_def)
  show st: "serverState (after (start s) s) = STARTING"
    by (simp add: new after_def)
  show "promises (after (start s) s) = promises s @ [Pending]"
    by (simp add: new after_def)
  show "listen_calls (after (start s) s) = listen_calls s @ [(serverPort s, serverHost s)]"
    by (simp add: new after_def)
  have "serverStartPromise (after (start s) s) = Some (length (promises s))"
    by (simp add: new after_def)
  with st show "start (after (start s) s) = Inr (Some (length (promises s)), after (start s) s)"
    by (simp add: start_def)
  show "let t = emit (Ev_listening address port) (after (start s) s)
        in serverState t = LISTENING \<and> serverHost t = address \<and> serverPort t = port
           \<and> promises t ! length (promises s) = Resolved LISTENING
           \<and> start t = Inr (Some (length (promises s)), t)" for address port
    using start_then_listening [OF a, of address port] by (simp add: Let_def start_def)
  show "let t = emit (Ev_error code) (after (start s) s)
        in serverState t = serverState s
           \<and> promises t ! length (promises s) = Rejected (SystemError code)" for code
    using start_then_error [OF a, of code] by (simp add: Let_def)
qed

theorem C5_start_witness:
  "serverState created_server = CREATED
   \<and> serverState (emit (Ev_error ''EADDRINUSE'') (after (start created_server) created_server))
       = CREATED
   \<and> promises (emit (Ev_error ''EADDRINUSE'') (after (start created_server) created_server)) ! 0
       = Rejected (SystemError ''EADDRINUSE'')
   \<and> serverPort (emit (Ev_listening ''127.0.0.1'' 49152) (after (start created_server) created_server))
       = 49152
   \<and> start listening_server = Inr (Some 0, listening_server)"
proof -
  let ?s' = "after (start created_server) created_server"
  have c: "serverState created_server = CREATED" and n: "length (promises created_server) = 0"
    by (simp_all add: created_server_def)
  then have h: "serverState created_server = CREATED \<or> serverState created_server = STOPPED"
    by simp
  from C5_start [of created_server] h
  have e: "\<forall>code. let t = emit (Ev_error code) ?s'
        in serverState t = serverState created_server
           \<and> promises t ! length (promises created_server) = Rejected (SystemError code)"
    and l: "\<forall>address port. let t = emit (Ev_listening address port) ?s'
        in serverState t = LISTENING \<and> serverHost t = address \<and> serverPort t = port
           \<and> promises t ! length (promises created_server) = Resolved LISTENING
           \<and> start t = Inr (Some (length (promises created_server)), t)"
    by blast+
  from e have "let t = emit (Ev_error ''EADDRINUSE'') ?s'
        in serverState t = serverState created_server
           \<and> promises t ! length (promises created_server) = Rejected (SystemError ''EADDRINUSE'')"
    by blast
  then have e': "serverState (emit (Ev_error ''EADDRINUSE'') ?s') = CREATED
      \<and> promises (emit (Ev_error ''EADDRINUSE'') ?s') ! 0 = Rejected (SystemError ''EADDRINUSE'')"
    unfolding Let_def c n by blast
  from l have "let t = emit (Ev_listening ''127.0.0.1'' 49152) ?s'
        in serverState t = LISTENING \<and> serverHost t = ''127.0.0.1'' \<and> serverPort t = 49152
           \<and> promises t ! length (promises created_server) = Resolved LISTENING
           \<and> start t = Inr (Some (length (promises created_server)), t)"
    by blast
  then have l': "serverPort (emit (Ev_listening ''127.0.0.1'' 49152) ?s') = 49152"
    unfolding Let_def by blast
  have "serverState listening_server = STARTING \<or> serverState listening_server = LISTENING"
    by (simp add: listening_server_def)
  with C5_start [of listening_server]
  have "start listening_server = Inr (serverStartPromise listening_server, listening_server)"
    by blast
  moreover have "serverStartPromise listening_server = Some 0"
    by (simp add: listening_server_def)
  ultimately have r: "start listening_server = Inr (Some 0, listening_server)"
    by simp
  from c e' l' r show ?thesis
    by blast
qed

text \<open>
  Claim C6. \<open>stop()\<close> in state \<open>STOPPING\<close> or \<open>STOPPED\<close> returns the stop promise that the
  instance holds and changes nothing. In any state other than \<open>LISTENING\<close>, \<open>STOPPING\<close> and
  \<open>STOPPED\<close>, that is in \<open>CREATED\<close> or \<open>STARTING\<close>, it throws the not-stoppable error. In
  \<open>LISTENING\<close> it returns a new pending promise, the state is \<open>STOPPING\<close>, \<open>close\<close> has been
  called once, and a second call returns the same promise. When the server then emits
  \<open>"close"\<close>, the state is \<open>STOPPED\<close>, the promise is resolved with \<open>STOPPED\<close>, and \<open>stop()\<close> still
  returns it. When the server instead emits \<open>"error"\<close>, the state is \<open>LISTENING\<close> again and the
  promise is rejected with the error made from the system error code. Both hold whatever
  listeners of earlier calls are still registered.
\<close>

theorem C6_stop:
  "(serverState s = STOPPING \<or> serverState s = STOPPED \<longrightarrow>
      stop s = Inr (serverStopPromise s, s))
   \<and> (serverState s \<noteq> LISTENING \<and> serverState s \<noteq> STOPPING \<and> serverState s \<noteq> STOPPED \<longrightarrow>
      (serverState s = CREATED \<or> serverState s = STARTING)
      \<and> stop s = Inl ERROR_HTTP_TEST_SERVER_NOT_IN_STOPPABLE_STATE)
   \<and> (serverState s = CREATED \<or> serverState s = STARTING \<longrightarrow>
      stop s = Inl ERROR_HTTP_TEST_SERVER_NOT_IN_STOPPABLE_STATE)
   \<and> (serverState s = LISTENING \<longrightarrow>
        stop s = Inr (Some (length (promises s)), after (stop s) s)
        \<and> serverState (after (stop s) s) = STOPPING
        \<and> promises (after (stop s) s) = promises s @ [Pending]
        \<and> close_calls (after (stop s) s) = Suc (close_calls s)
        \<and> stop (after (stop s) s) = Inr (Some (length (promises s)), after (stop s) s)
        \<and> (let t = emit Ev_close (after (stop s) s)
           in serverState t = STOPPED
              \<and> promises t ! length (promises s) = Resolved STOPPED
              \<and> stop t = Inr (serverStopPromise (after (stop s) s), t))
        \<and> (\<forall>code.
              let t = emit (Ev_error code) (after (stop s) s)
              in serverState t = LISTENING
                 \<and> promises t ! length (promises s) = Rejected (SystemError code)))"
proof (intro conjI impI allI)
  assume "serverState s = STOPPING \<or> serverState s = STOPPED"
  then show "stop s = Inr (serverStopPromise s, s)"
    by (simp add: stop_def)
next
  assume a: "serverState s \<noteq> LISTENING \<and> serverState s \<noteq> STOPPING \<and> serverState s \<noteq> STOPPED"
  then show "serverState s = CREATED \<or> serverState s = STARTING"
    by (cases "serverState s") simp_all
  from a show "stop s = Inl ERROR_HTTP_TEST_SERVER_NOT_IN_STOPPABLE_STATE"
    by (simp add: stop_def)
next
  assume "serverState s = CREATED \<or> serverState s = STARTING"
  then show "stop s = Inl ERROR_HTTP_TEST_SERVER_NOT_IN_STOPPABLE_STATE"
    by (auto simp add: stop_def)
next
  assume a: "serverState s = LISTENING"
  note new = stop_new [OF a]
  show "stop s = Inr (Some (length (promises s)), after (stop s) s)"
    by (simp add: new after_def)
  show st: "serverState (after (stop s) s) = STOPPING"
    by (simp add: new after_def)
  show "promises (after (stop s) s) = promises s @ [Pending]"
    by (simp add: new after_def)
  show "close_calls (after (stop s) s) = Suc (close_calls s)"
    by (simp add: new after_def)
  have sp: "serverStopPromise (after (stop s) s) = Some (length (promises s))"
    by (simp add: new after_def)
  with st show "stop (after (stop s) s) = Inr (Some (length (promises s)), after (stop s) s)"
    by (simp add: stop_def)
  have "serverStopPromise (fold (call_listener Ev_close) xs t) = serverStopPromise t" for xs t
  proof (induction xs arbitrary: t)
    case Nil
    then show ?case by simp
  next
    case (Cons x xs)
    have "serverStopPromise (call_listener Ev_close x t) = serverStopPromise t"
      by (cases x) (simp_all add: Let_def)
    with Cons.IH [of "call_listener Ev_close x t"] show ?case
      by simp
  qed
  then have "serverStopPromise (emit Ev_close (after (stop s) s))
      = serverStopPromise (after (stop s) s)"
    by (simp add: emit_def)
  then show "let t = emit Ev_close (after (stop s) s)
        in serverState t = STOPPED
           \<and> promises t ! length (promises s) = Resolved STOPPED
           \<and> stop t = Inr (serverStopPromise (after (stop s) s), t)"
    using stop_then_close [OF a] by (simp add: Let_def stop_def)
  show "let t = emit (Ev_error code) (after (stop s) s)
        in serverState t = LISTENING
           \<and> promises t ! length (promises s) = Rejected (SystemError code)" for code
    using stop_then_error [OF a, of code] by (simp add: Let_def)
qed

theorem C6_stop_witness:
  "serverState listening_server = LISTENING
   \<and> serverState (emit (Ev_error ''EIO'') (after (stop listening_server) listening_server))
       = LISTENING
   \<and> promises (emit (Ev_error ''EIO'') (after (stop listening_server) listening_server)) ! 1
       = Rejected (SystemError ''EIO'')
   \<and> serverState (emit Ev_close (after (stop listening_server) listening_server)) = STOPPED
   \<and> stop created_server = Inl ERROR_HTTP_TEST_SERVER_NOT_IN_STOPPABLE_STATE"
proof -
  let ?s' = "after (stop listening_server) listening_server"
  have c: "serverState listening_server = LISTENING"
    and n: "length (promises listening_server) = 1"
    by (simp_all add: listening_server_def)
  from C6_stop [of listening_server] c
  have e: "\<forall>code. let t = emit (Ev_error code) ?s'
        in serverState t = LISTENING
           \<and> promises t ! length (promises listening_server) = Rejected (SystemError code)"
    and l: "let t = emit Ev_close ?s'
        in serverState t = STOPPED
           \<and> promises t ! length (promises listening_server) = Resolved STOPPED
           \<and> stop t = Inr (serverStopPromise ?s', t)"
    by blast+
  from e have "let t = emit (Ev_error ''EIO'') ?s'
        in serverState t = LISTENING
           \<and> promises t ! length (promises listening_server) = Rejected (SystemError ''EIO'')"
    by blast
  then have e': "serverState (emit (Ev_error ''EIO'') ?s') = LISTENING
      \<and> promises (emit (Ev_error ''EIO'') ?s') ! 1 = Rejected (SystemError ''EIO'')"
    unfolding Let_def n by blast
  from l have l': "serverState (emit Ev_close ?s') = STOPPED"
    unfolding Let_def by blast
  have "serverState created_server = CREATED \<or> serverState created_server = STARTING"
    by (simp add: created_server_def)
  with C6_stop [of created_server]
  have r: "stop created_server = Inl ERROR_HTTP_TEST_SERVER_NOT_IN_STOPPABLE_STATE"
    by blast
  from c e' l' r show ?thesis
    by blast
qed

section \<open>The response and the chunked write loops\<close>

text \<open>
  What a handler does to the response is the list of its calls, in order, together with
  the \<open>"drain"\<close> events of the transport: \<open>Write chunk r\<close> is a call \<open>response.write(chunk)\<close>
  that returned \<open>r\<close> (\<open>False\<close> reports backpressure), \<open>OnceDrain\<close> is
  \<open>response.once("drain", writeResponseBody)\<close>, \<open>Drain\<close> is the transport's \<open>"drain"\<close> event,
  which calls the listener registered, and \<open>End m\<close> is \<open>response.end()\<close> or
  \<open>response.end(message)\<close>.
\<close>

datatype header_value = HString string | HNumber nat

datatype response_event =
    SetHeader string header_value
  | WriteHead nat
  | Write buffer bool
  | OnceDrain
  | Drain
  | End "string option"

text \<open>\<open>buf.subarray(i, j)\<close>, for \<open>i \<le> j\<close>; both are clamped to the length.\<close>

definition subarray :: "buffer \<Rightarrow> nat \<Rightarrow> nat \<Rightarrow> buffer" where
  "subarray buf i j = take (j - i) (drop i buf)"

text \<open>
  One call of the closure \<open>writeResponseBody\<close> of \<open>/checkpattern\<close>, \<open>/checkstring\<close> and
  \<open>/checkjson\<close> (the three are the same loop over \<open>requestBodyBuffer\<close>, respectively
  \<open>responseBodyBuffer\<close>). \<open>accept k\<close> is what the \<open>k\<close>-th call of \<open>response.write\<close> of the
  session returns. The call returns whether it ended the response, the pointer, the
  number of writes so far and the calls made so far; it does not return (\<open>None\<close>) when the
  loop runs forever.
\<close>

partial_function (option) writeResponseBody ::
  "(nat \<Rightarrow> bool) \<Rightarrow> nat \<Rightarrow> buffer \<Rightarrow> nat \<Rightarrow> nat \<Rightarrow> response_event list
    \<Rightarrow> (bool \<times> nat \<times> nat \<times> response_event list) option" where
  "writeResponseBody accept maxResponseChunkSize buf responseBodyBufferPointer k log =
     (if responseBodyBufferPointer < length buf then
        (let responseBodyChunkSize =
               (if length buf - responseBodyBufferPointer < maxResponseChunkSize
                then length buf - responseBodyBufferPointer else maxResponseChunkSize);
             responseBodyChunk = subarray buf responseBodyBufferPointer
               (responseBodyBufferPointer + responseBodyChunkSize);
             writeResponseBodyResult = accept k;
             log' = log @ [Write responseBodyChunk writeResponseBodyResult];
             pointer' = responseBodyBufferPointer + responseBodyChunkSize
         in if writeResponseBodyResult = False
            then Some (False, pointer', Suc k, log' @ [OnceDrain])
            else writeResponseBody accept maxResponseChunkSize buf pointer' (Suc k) log')
      else Some (True, responseBodyBufferPointer, k, log @ [End None]))"

text \<open>
  The whole transfer: the first call, and after each call that registered the \<open>"drain"\<close>
  listener, the transport's \<open>"drain"\<close> event, which calls the closure again.
\<close>

partial_function (option) sendResponseBody ::
  "(nat \<Rightarrow> bool) \<Rightarrow> nat \<Rightarrow> buffer \<Rightarrow> nat \<Rightarrow> nat \<Rightarrow> response_event list
    \<Rightarrow> response_event list option" where
  "sendResponseBody accept maxResponseChunkSize buf pointer k log =
     Option.bind (writeResponseBody accept maxResponseChunkSize buf pointer k log)
       (\<lambda>(ended, pointer', k', log').
          if ended then Some log'
          else sendResponseBody accept maxResponseChunkSize buf pointer' k' (log' @ [Drain]))"

text \<open>
  The closure \<open>writeResponseBody\<close> of \<open>/bigrandomfile\<close>: it counts the remaining bytes down
  and writes what \<open>crypto.randomBytes(responseBodyChunkSize)\<close> returns; \<open>randomBytes k n\<close> is
  the result of the call for the \<open>k\<close>-th write.
\<close>

partial_function (option) writeRandomBody ::
  "(nat \<Rightarrow> bool) \<Rightarrow> (nat \<Rightarrow> nat \<Rightarrow> buffer) \<Rightarrow> nat \<Rightarrow> nat \<Rightarrow> nat \<Rightarrow> response_event list
    \<Rightarrow> (bool \<times> nat \<times> nat \<times> response_event list) option" where
  "writeRandomBody accept randomBytes responseBodyMaxChunkSize responseBodyRemainingBytes k log =
     (if responseBodyRemainingBytes > 0 then
        (let responseBodyChunkSize =
               (if responseBodyRemainingBytes > responseBodyMaxChunkSize
                then responseBodyMaxChunkSize else responseBodyRemainingBytes);
             responseBodyChunk = randomBytes k responseBodyChunkSize;
             responseBodyWriteResult = accept k;
             log' = log @ [Write responseBodyChunk responseBodyWriteResult];
             remaining' = responseBodyRemainingBytes - responseBodyChunkSize
         in if responseBodyWriteResult = False
            then Some (False, remaining', Suc k, log' @ [OnceDrain])
            else writeRandomBody accept randomBytes responseBodyMaxChunkSize remaining' (Suc k) log')
      else Some (True, responseBodyRemainingBytes, k, log @ [End None]))"

partial_function (option) sendRandomBody ::
  "(nat \<Rightarrow> bool) \<Rightarrow> (nat \<Rightarrow> nat \<Rightarrow> buffer) \<Rightarrow> nat \<Rightarrow> nat \<Rightarrow> nat \<Rightarrow> response_event list
    \<Rightarrow> response_event list option" where
  "sendRandomBody accept randomBytes responseBodyMaxChunkSize remaining k log =
     Option.bind (writeRandomBody accept randomBytes responseBodyMaxChunkSize remaining k log)
       (\<lambda>(ended, remaining', k', log').
          if ended then Some log'
          else sendRandomBody accept randomBytes responseBodyMaxChunkSize remaining' k'
                 (log' @ [Drain]))"

declare writeResponseBody.simps [code]
declare sendResponseBody.simps [code]
declare writeRandomBody.simps [code]
declare sendRandomBody.simps [code]

text \<open>Reading a list of calls: the chunks written, the status, the body sent.\<close>

fun written :: "response_event list \<Rightarrow> buffer list" where
  "written [] = []"
| "written (Write chunk r # es) = chunk # written es"
| "written (e # es) = written es"

fun status_of :: "response_event list \<Rightarrow> nat option" where
  "status_of [] = None"
| "status_of (WriteHead code # es) = Some code"
| "status_of (e # es) = status_of es"

fun ended_with :: "response_event list \<Rightarrow> string" where
  "ended_with [] = []"
| "ended_with (End (Some message) # es) = message @ ended_with es"
| "ended_with (e # es) = ended_with es"

definition response_body :: "response_event list \<Rightarrow> buffer" where
  "response_body log = concat (written log) @ ended_with log"

fun header :: "string \<Rightarrow> response_event list \<Rightarrow> header_value option" where
  "header name [] = None"
| "header name (SetHeader n v # es) = (if n = name then Some v else header name es)"
| "header name (e # es) = header name es"

text \<open>
  The flow-control discipline of a list of calls. The transport is \<open>Ready\<close>, or \<open>Blocked\<close>
  after a write that returned \<open>false\<close>, or \<open>Waiting\<close> once the \<open>"drain"\<close> listener is registered.
  A write and the end of the response are made only when the transport is ready; the
  listener is registered only when it is blocked, and once; the \<open>"drain"\<close> event makes it
  ready; nothing follows the end of the response.
\<close>

datatype flow = Ready | Blocked | Waiting

fun disciplined :: "flow \<Rightarrow> response_event list \<Rightarrow> bool" where
  "disciplined f [] = False"
| "disciplined f (Write chunk r # es) = (f = Ready \<and> disciplined (if r then Ready else Blocked) es)"
| "disciplined f (OnceDrain # es) = (f = Blocked \<and> disciplined Waiting es)"
| "disciplined f (Drain # es) = (f = Waiting \<and> disciplined Ready es)"
| "disciplined f (End m # es) = (f = Ready \<and> es = [])"
| "disciplined f (e # es) = disciplined f es"

text \<open>
  The sizes that the claim gives for the chunks of \<open>n\<close> bytes under a write limit \<open>w\<close>:
  each is the minimum of \<open>w\<close> and what remains.
\<close>

function chunk_sizes :: "nat \<Rightarrow> nat \<Rightarrow> nat list" where
  "chunk_sizes w n = (if n = 0 \<or> w = 0 then [] else min w n # chunk_sizes w (n - min w n))"
  by pat_completeness auto
termination
  by (relation "measure (\<lambda>(w, n). n)") auto

declare chunk_sizes.simps [simp del]

function chunks_of :: "nat \<Rightarrow> buffer \<Rightarrow> buffer list" where
  "chunks_of w xs = (if xs = [] \<or> w = 0 then [] else take w xs # chunks_of w (drop w xs))"
  by pat_completeness auto
termination
  by (relation "measure (\<lambda>(w, xs). length xs)") auto

declare chunks_of.simps [simp del]

function random_chunks :: "(nat \<Rightarrow> nat \<Rightarrow> buffer) \<Rightarrow> nat \<Rightarrow> nat \<Rightarrow> nat \<Rightarrow> buffer list" where
  "random_chunks randomBytes w n k =
     (if n = 0 \<or> w = 0 then []
      else randomBytes k (min w n) # random_chunks randomBytes w (n - min w n) (Suc k))"
  by pat_completeness auto
termination
  by (relation "measure (\<lambda>(r, w, n, k). n)") auto

declare random_chunks.simps [simp del]

text \<open>The calls that write a given list of chunks, from the \<open>k\<close>-th write on.\<close>

fun transcript :: "(nat \<Rightarrow> bool) \<Rightarrow> nat \<Rightarrow> buffer list \<Rightarrow> response_event list" where
  "transcript accept k [] = [End None]"
| "transcript accept k (c # cs) =
     Write c (accept k) # (if accept k then [] else [OnceDrain, Drain])
       @ transcript accept (Suc k) cs"

section \<open>Properties of the chunked write loops\<close>

lemma written_append: "written (xs @ ys) = written xs @ written ys"
  by (induction xs rule: written.induct) simp_all

lemma written_transcript: "written (transcript accept k cs) = cs"
  by (induction cs arbitrary: k) simp_all

lemma disciplined_transcript: "disciplined Ready (transcript accept k cs)"
  by (induction cs arbitrary: k) simp_all

lemma transcript_not_Nil: "transcript accept k cs \<noteq> []"
  by (cases cs) simp_all

lemma last_transcript: "last (transcript accept k cs) = End None"
  by (induction cs arbitrary: k) (simp_all add: transcript_not_Nil)

lemma count_End_transcript: "count_list (transcript accept k cs) (End None) = 1"
  by (induction cs arbitrary: k) simp_all

lemma concat_chunks_of: "0 < w \<Longrightarrow> concat (chunks_of w xs) = xs"
proof (induction w xs rule: chunks_of.induct)
  case (1 w xs)
  then show ?case
    by (subst chunks_of.simps) auto
qed

lemma lengths_chunks_of: "map length (chunks_of w xs) = chunk_sizes w (length xs)"
proof (induction w xs rule: chunks_of.induct)
  case (1 w xs)
  show ?case
  proof (cases "xs = [] \<or> w = 0")
    case True
    then show ?thesis
      by (subst chunks_of.simps, subst chunk_sizes.simps) auto
  next
    case False
    with 1 have "map length (chunks_of w (drop w xs)) = chunk_sizes w (length xs - w)"
      by simp
    moreover have "chunk_sizes w (length xs - min w (length xs)) = chunk_sizes w (length xs - w)"
      by (cases "w \<le> length xs") (simp_all add: min_def)
    ultimately show ?thesis
      using False by (subst chunks_of.simps, subst chunk_sizes.simps) (simp add: min.commute)
  qed
qed

lemma lengths_random_chunks:
  "(\<And>k m. length (randomBytes k m) = m) \<Longrightarrow>
   map length (random_chunks randomBytes w n k) = chunk_sizes w n"
proof (induction randomBytes w n k rule: random_chunks.induct)
  case (1 randomBytes w n k)
  then show ?case
    by (subst random_chunks.simps, subst chunk_sizes.simps) auto
qed

lemma sum_chunk_sizes: "0 < w \<Longrightarrow> sum_list (chunk_sizes w n) = n"
proof (induction w n rule: chunk_sizes.induct)
  case (1 w n)
  then show ?case
    by (subst chunk_sizes.simps) auto
qed

lemma nth_chunk_sizes:
  "i < length (chunk_sizes w n) \<Longrightarrow> chunk_sizes w n ! i = min w (n - i * w)"
proof (induction w n arbitrary: i rule: chunk_sizes.induct)
  case (1 w n)
  show ?case
  proof (cases "n = 0 \<or> w = 0")
    case True
    with "1.prems" show ?thesis
      by (simp add: chunk_sizes.simps [of w n])
  next
    case False
    then have unfold: "chunk_sizes w n = min w n # chunk_sizes w (n - min w n)"
      by (subst chunk_sizes.simps) simp
    show ?thesis
    proof (cases i)
      case 0
      then show ?thesis
        by (simp add: unfold)
    next
      case (Suc j)
      with "1.prems" unfold have j: "j < length (chunk_sizes w (n - min w n))"
        by simp
      from "1.IH" [OF False j]
      have "chunk_sizes w (n - min w n) ! j = min w (n - min w n - j * w)" .
      moreover have "min w (n - min w n - j * w) = min w (n - Suc j * w)"
        by (cases "w \<le> n") (simp_all add: min_def)
      ultimately show ?thesis
        using Suc by (simp add: unfold)
    qed
  qed
qed

lemma subarray_chunk:
  assumes "ptr < length buf"
  shows "subarray buf ptr
      (ptr + (if length buf - ptr < w then length buf - ptr else w)) = take w (drop ptr buf)"
  using assms by (simp add: subarray_def)

lemma drop_chunk:
  "drop (ptr + (if length buf - ptr < w then length buf - ptr else w)) buf
     = drop w (drop ptr buf)"
  by (simp add: add.commute)

lemma sendResponseBody_transcript:
  assumes w: "0 < w"
  shows "sendResponseBody accept w buf ptr k log
    = Some (log @ transcript accept k (chunks_of w (drop ptr buf)))"
proof (induction "length buf - ptr" arbitrary: ptr k log rule: less_induct)
  case less
  have unfold: "sendResponseBody accept w buf p j l =
      Option.bind (writeResponseBody accept w buf p j l)
        (\<lambda>(ended, pointer', k', log').
           if ended then Some log' else sendResponseBody accept w buf pointer' k' (log' @ [Drain]))"
    for p j l
    by (rule sendResponseBody.simps)
  show ?case
  proof (cases "ptr < length buf")
    case False
    then have "writeResponseBody accept w buf ptr k log = Some (True, ptr, k, log @ [End None])"
      by (subst writeResponseBody.simps) simp
    then have "sendResponseBody accept w buf ptr k log = Some (log @ [End None])"
      by (simp add: unfold [of ptr k log])
    moreover have "chunks_of w (drop ptr buf) = []"
      using False by (subst chunks_of.simps) simp
    ultimately show ?thesis
      by simp
  next
    case True
    define sz where "sz = (if length buf - ptr < w then length buf - ptr else w)"
    define chunk where "chunk = take w (drop ptr buf)"
    have sub: "subarray buf ptr (ptr + sz) = chunk"
      unfolding sz_def chunk_def using True by (rule subarray_chunk)
    have rest: "drop (ptr + sz) buf = drop w (drop ptr buf)"
      unfolding sz_def by (rule drop_chunk)
    have chunks: "chunks_of w (drop ptr buf) = chunk # chunks_of w (drop (ptr + sz) buf)"
      using True w by (subst chunks_of.simps) (simp add: chunk_def rest)
    have "0 < sz" and "ptr + sz \<le> length buf"
      using True w by (auto simp add: sz_def)
    then have "length buf - (ptr + sz) < length buf - ptr"
      using True by arith
    then have IH: "sendResponseBody accept w buf (ptr + sz) k' log'
        = Some (log' @ transcript accept k' (chunks_of w (drop (ptr + sz) buf)))" for k' log'
      by (rule less.hyps)
    show ?thesis
    proof (cases "accept k")
      case accepted: True
      have "writeResponseBody accept w buf ptr k log
          = writeResponseBody accept w buf (ptr + sz) (Suc k) (log @ [Write chunk True])"
        using True accepted
        by (subst writeResponseBody.simps) (simp add: Let_def sz_def [symmetric] sub)
      then have "sendResponseBody accept w buf ptr k log
          = sendResponseBody accept w buf (ptr + sz) (Suc k) (log @ [Write chunk True])"
        by (simp add: unfold [of ptr k log] unfold [of "ptr + sz" "Suc k" "log @ [Write chunk True]"])
      then show ?thesis
        using accepted by (simp add: IH chunks)
    next
      case blocked: False
      have "writeResponseBody accept w buf ptr k log
          = Some (False, ptr + sz, Suc k, (log @ [Write chunk False]) @ [OnceDrain])"
        using True blocked
        by (subst writeResponseBody.simps) (simp add: Let_def sz_def [symmetric] sub)
      then have "sendResponseBody accept w buf ptr k log
          = sendResponseBody accept w buf (ptr + sz) (Suc k)
              (((log @ [Write chunk False]) @ [OnceDrain]) @ [Drain])"
        by (simp add: unfold [of ptr k log])
      then show ?thesis
        using blocked by (simp add: IH chunks)
    qed
  qed
qed

lemma sendRandomBody_transcript:
  assumes w: "0 < w"
  shows "sendRandomBody accept randomBytes w n k log
    = Some (log @ transcript accept k (random_chunks randomBytes w n k))"
proof (induction n arbitrary: k log rule: less_induct)
  case (less n)
  have unfold: "sendRandomBody accept randomBytes w m j l =
      Option.bind (writeRandomBody accept randomBytes w m j l)
        (\<lambda>(ended, remaining', k', log').
           if ended then Some log'
           else sendRandomBody accept randomBytes w remaining' k' (log' @ [Drain]))"
    for m j l
    by (rule sendRandomBody.simps)
  show ?case
  proof (cases "n > 0")
    case False
    then have "writeRandomBody accept randomBytes w n k log = Some (True, n, k, log @ [End None])"
      by (subst writeRandomBody.simps) simp
    then have "sendRandomBody accept randomBytes w n k log = Some (log @ [End None])"
      by (simp add: unfold [of n k log])
    moreover have "random_chunks randomBytes w n k = []"
      using False by (subst random_chunks.simps) simp
    ultimately show ?thesis
      by simp
  next
    case True
    define sz where "sz = (if n > w then w else n)"
    define chunk where "chunk = randomBytes k sz"
    have sz: "sz = min w n"
      by (simp add: sz_def min_def)
    have chunks: "random_chunks randomBytes w n k
        = chunk # random_chunks randomBytes w (n - sz) (Suc k)"
      using True w by (subst random_chunks.simps) (simp add: chunk_def sz)
    have "0 < sz" and "sz \<le> n"
      using True w by (auto simp add: sz_def)
    then have "n - sz < n"
      using True by arith
    then have IH: "sendRandomBody accept randomBytes w (n - sz) k' log'
        = Some (log' @ transcript accept k' (random_chunks randomBytes w (n - sz) k'))" for k' log'
      by (rule less.IH)
    show ?thesis
    proof (cases "accept k")
      case accepted: True
      have "writeRandomBody accept randomBytes w n k log
          = writeRandomBody accept randomBytes w (n - sz) (Suc k) (log @ [Write chunk True])"
        using True accepted
        by (subst writeRandomBody.simps) (simp add: Let_def sz_def [symmetric] chunk_def)
      then have "sendRandomBody accept randomBytes w n k log
          = sendRandomBody accept randomBytes w (n - sz) (Suc k) (log @ [Write chunk True])"
        by (simp add: unfold [of n k log] unfold [of "n - sz" "Suc k" "log @ [Write chunk True]"])
      then show ?thesis
        using accepted by (simp add: IH chunks)
    next
      case blocked: False
      have "writeRandomBody accept randomBytes w n k log
          = Some (False, n - sz, Suc k, (log @ [Write chunk False]) @ [OnceDrain])"
        using True blocked
        by (subst writeRandomBody.simps) (simp add: Let_def sz_def [symmetric] chunk_def)
      then have "sendRandomBody accept randomBytes w n k log
          = sendRandomBody accept randomBytes w (n - sz) (Suc k)
              (((log @ [Write chunk False]) @ [OnceDrain]) @ [Drain])"
        by (simp add: unfold [of n k log])
      then show ?thesis
        using blocked by (simp add: IH chunks)
    qed
  qed
qed

lemma length_random_chunks:
  "length (random_chunks randomBytes w n k) = length (chunk_sizes w n)"
proof (induction randomBytes w n k rule: random_chunks.induct)
  case (1 randomBytes w n k)
  then show ?case
    by (subst random_chunks.simps, subst chunk_sizes.simps) auto
qed

lemma nth_random_chunks:
  "i < length (chunk_sizes w n) \<Longrightarrow>
   random_chunks randomBytes w n k ! i = randomBytes (k + i) (chunk_sizes w n ! i)"
proof (induction randomBytes w n k arbitrary: i rule: random_chunks.induct)
  case (1 randomBytes w n k)
  show ?case
  proof (cases "n = 0 \<or> w = 0")
    case True
    with "1.prems" show ?thesis
      by (simp add: chunk_sizes.simps [of w n])
  next
    case False
    then have sizes: "chunk_sizes w n = min w n # chunk_sizes w (n - min w n)"
      by (subst chunk_sizes.simps) simp
    from False have chunks: "random_chunks randomBytes w n k
        = randomBytes k (min w n) # random_chunks randomBytes w (n - min w n) (Suc k)"
      by (subst random_chunks.simps) simp
    show ?thesis
    proof (cases i)
      case 0
      then show ?thesis
        by (simp add: sizes chunks)
    next
      case (Suc j)
      with "1.prems" sizes have "j < length (chunk_sizes w (n - min w n))"
        by simp
      from "1.IH" [OF False this] Suc show ?thesis
        by (simp add: sizes chunks)
    qed
  qed
qed

text \<open>
  Claim C3. Let the write limit \<open>w\<close> (the stream's \<open>writableHighWaterMark\<close>) be positive, as
  it is for a stream of Node.js. Whatever the writes return, the loop over a buffer
  finishes, and the chunks it writes are consecutive pieces of the buffer: their
  concatenation is the buffer, and the \<open>i\<close>-th has the size \<open>min w (n - i * w)\<close>, the minimum
  of \<open>w\<close> and what remains. The loop of \<open>/bigrandomfile\<close> over \<open>n\<close> bytes finishes too, and
  its \<open>i\<close>-th chunk is what \<open>randomBytes\<close> returned for that size; the sizes add up to \<open>n\<close>.
  In both, the calls are disciplined: a write is made only when the transport is ready;
  after a write that returned \<open>false\<close> the loop registers the \<open>"drain"\<close> listener once and makes
  no call until the \<open>"drain"\<close> event; the response is ended once, as the last call, when the
  transport is ready.
\<close>

theorem C3_chunked_writer:
  assumes "0 < w"
  shows "(\<exists>log. sendResponseBody accept w buf 0 0 [] = Some log
            \<and> concat (written log) = buf
            \<and> map length (written log) = chunk_sizes w (length buf)
            \<and> (\<forall>i<length (written log). length (written log ! i) = min w (length buf - i * w))
            \<and> disciplined Ready log \<and> count_list log (End None) = 1 \<and> last log = End None)
       \<and> (\<exists>log. sendRandomBody accept randomBytes w n 0 [] = Some log
            \<and> length (written log) = length (chunk_sizes w n)
            \<and> (\<forall>i<length (written log).
                  written log ! i = randomBytes i (min w (n - i * w)))
            \<and> sum_list (chunk_sizes w n) = n
            \<and> disciplined Ready log \<and> count_list log (End None) = 1 \<and> last log = End None)"
proof (rule conjI)
  let ?log = "transcript accept 0 (chunks_of w buf)"
  have run: "sendResponseBody accept w buf 0 0 [] = Some ?log"
    using sendResponseBody_transcript [OF assms, of accept buf 0 0 "[]"] by simp
  have wr: "written ?log = chunks_of w buf"
    by (rule written_transcript)
  have sizes: "map length (written ?log) = chunk_sizes w (length buf)"
    by (simp only: wr lengths_chunks_of)
  have "length (written ?log ! i) = min w (length buf - i * w)" if "i < length (written ?log)" for i
  proof -
    from that have i: "i < length (chunk_sizes w (length buf))"
      by (simp only: sizes [symmetric] length_map)
    from that have "length (written ?log ! i) = map length (written ?log) ! i"
      by simp
    also have "\<dots> = chunk_sizes w (length buf) ! i"
      by (simp only: sizes)
    also have "\<dots> = min w (length buf - i * w)"
      using i by (rule nth_chunk_sizes)
    finally show ?thesis .
  qed
  moreover have "concat (written ?log) = buf"
    using assms by (simp only: wr concat_chunks_of)
  ultimately show "\<exists>log. sendResponseBody accept w buf 0 0 [] = Some log
      \<and> concat (written log) = buf
      \<and> map length (written log) = chunk_sizes w (length buf)
      \<and> (\<forall>i<length (written log). length (written log ! i) = min w (length buf - i * w))
      \<and> disciplined Ready log \<and> count_list log (End None) = 1 \<and> last log = End None"
    using run sizes disciplined_transcript [of accept 0 "chunks_of w buf"]
      count_End_transcript [of accept 0 "chunks_of w buf"]
      last_transcript [of accept 0 "chunks_of w buf"]
    by blast
next
  let ?log = "transcript accept 0 (random_chunks randomBytes w n 0)"
  have run: "sendRandomBody accept randomBytes w n 0 [] = Some ?log"
    using sendRandomBody_transcript [OF assms, of accept randomBytes n 0 "[]"] by simp
  have wr: "written ?log = random_chunks randomBytes w n 0"
    by (rule written_transcript)
  have len: "length (written ?log) = length (chunk_sizes w n)"
    by (simp only: wr length_random_chunks)
  have "written ?log ! i = randomBytes i (min w (n - i * w))" if "i < length (written ?log)" for i
  proof -
    from that have i: "i < length (chunk_sizes w n)"
      by (simp only: len)
    then have "random_chunks randomBytes w n 0 ! i = randomBytes (0 + i) (chunk_sizes w n ! i)"
      by (rule nth_random_chunks)
    moreover have "chunk_sizes w n ! i = min w (n - i * w)"
      using i by (rule nth_chunk_sizes)
    ultimately show ?thesis
      by (simp add: wr)
  qed
  moreover have "sum_list (chunk_sizes w n) = n"
    using assms by (rule sum_chunk_sizes)
  ultimately show "\<exists>log. sendRandomBody accept randomBytes w n 0 [] = Some log
      \<and> length (written log) = length (chunk_sizes w n)
      \<and> (\<forall>i<length (written log). written log ! i = randomBytes i (min w (n - i * w)))
      \<and> sum_list (chunk_sizes w n) = n
      \<and> disciplined Ready log \<and> count_list log (End None) = 1 \<and> last log = End None"
    using run len disciplined_transcript [of accept 0 "random_chunks randomBytes w n 0"]
      count_End_transcript [of accept 0 "random_chunks randomBytes w n 0"]
      last_transcript [of accept 0 "random_chunks randomBytes w n 0"]
    by blast
qed

theorem C3_chunked_writer_witness:
  "(0::nat) < 3
   \<and> sendResponseBody (\<lambda>k. k \<noteq> 1) 3 ''abcdefgh'' 0 0 []
       = Some [Write ''abc'' True, Write ''def'' False, OnceDrain, Drain,
               Write ''gh'' True, End None]
   \<and> (\<exists>log. sendResponseBody (\<lambda>k. k \<noteq> 1) 3 ''abcdefgh'' 0 0 [] = Some log
         \<and> concat (written log) = ''abcdefgh'' \<and> disciplined Ready log)
   \<and> (\<exists>log. sendRandomBody (\<lambda>k. k \<noteq> 1) (\<lambda>k m. replicate m (CHR ''r'')) 3 7 0 [] = Some log
         \<and> disciplined Ready log \<and> last log = End None)"
proof -
  have pos: "(0::nat) < 3"
    by simp
  have run: "sendResponseBody (\<lambda>k. k \<noteq> 1) 3 ''abcdefgh'' 0 0 []
      = Some [Write ''abc'' True, Write ''def'' False, OnceDrain, Drain,
              Write ''gh'' True, End None]"
    by code_simp
  from C3_chunked_writer [OF pos, of "\<lambda>k. k \<noteq> 1" "''abcdefgh''" "\<lambda>k m. replicate m (CHR ''r'')" 7]
  have a: "\<exists>log. sendResponseBody (\<lambda>k. k \<noteq> 1) 3 ''abcdefgh'' 0 0 [] = Some log
      \<and> concat (written log) = ''abcdefgh'' \<and> disciplined Ready log"
    and b: "\<exists>log. sendRandomBody (\<lambda>k. k \<noteq> 1) (\<lambda>k m. replicate m (CHR ''r'')) 3 7 0 [] = Some log
      \<and> disciplined Ready log \<and> last log = End None"
    by blast+
  from pos run a b show ?thesis
    by blast
qed

section \<open>The check routes of the request dispatcher\<close>

text \<open>
  A request as the handlers read it: the method, the path of the URL and the headers.
  Node.js gives the header names in lower case. The method and the header values are
  ASCII strings, so \<open>toUpperCase\<close> and \<open>toLowerCase\<close> map the 26 letters and leave every
  other character as it is.
\<close>

record request =
  requestMethod :: string
  pathname :: string
  headers :: "string \<rightharpoonup> string"

definition toUpperCase :: "string \<Rightarrow> string" where
  "toUpperCase s =
     map (\<lambda>c. case map_of (zip ''abcdefghijklmnopqrstuvwxyz'' ''ABCDEFGHIJKLMNOPQRSTUVWXYZ'') c of
                 None \<Rightarrow> c | Some u \<Rightarrow> u) s"

definition toLowerCase :: "string \<Rightarrow> string" where
  "toLowerCase s =
     map (\<lambda>c. case map_of (zip ''ABCDEFGHIJKLMNOPQRSTUVWXYZ'' ''abcdefghijklmnopqrstuvwxyz'') c of
                 None \<Rightarrow> c | Some l \<Rightarrow> l) s"

text \<open>
  \<open>Buffer.compare(buf1, buf2)\<close>: it throws a \<open>TypeError\<close> when an argument is not a buffer
  (here: when \<open>requestBodyBuffer\<close> is \<open>null\<close>), and otherwise compares the bytes in order.
\<close>

fun compare_bytes :: "buffer \<Rightarrow> buffer \<Rightarrow> int" where
  "compare_bytes [] [] = 0"
| "compare_bytes [] (y # ys) = - 1"
| "compare_bytes (x # xs) [] = 1"
| "compare_bytes (x # xs) (y # ys) =
     (if x = y then compare_bytes xs ys
      else if (of_char x :: nat) < of_char y then - 1 else 1)"

definition Buffer_compare :: "buffer \<Rightarrow> buffer option \<Rightarrow> js_error + int" where
  "Buffer_compare buf1 buf2 =
     (case buf2 of None \<Rightarrow> Inl TypeError | Some b \<Rightarrow> Inr (compare_bytes buf1 b))"

text \<open>
  What a handler comes to: it throws, or it has made the calls of the list and the
  response is ended, or its write loop never ends. A handler reads the body from the
  variables of the accumulator; \<open>w\<close> is \<open>response.writableHighWaterMark\<close>.
\<close>

datatype handler_result = Threw js_error | Responded "response_event list" | Never_ends

definition transfer ::
  "(nat \<Rightarrow> bool) \<Rightarrow> nat \<Rightarrow> buffer \<Rightarrow> response_event list \<Rightarrow> handler_result" where
  "transfer accept w buf log =
     (case sendResponseBody accept w buf 0 0 log of
        None \<Rightarrow> Never_ends
      | Some log' \<Rightarrow> Responded log')"

definition checkpattern ::
  "request \<Rightarrow> accumulator \<Rightarrow> nat \<Rightarrow> (nat \<Rightarrow> bool) \<Rightarrow> handler_result" where
  "checkpattern req acc w accept =
     (let patternBuffer = Buffer_alloc PATTERN_SIZE PATTERN_STRING
      in if toUpperCase (requestMethod req) \<noteq> ''POST'' then Responded [WriteHead 400, End None]
         else case headers req ''content-type'' of
           None \<Rightarrow> Responded [WriteHead 400, End None]
         | Some contentType \<Rightarrow>
             if toLowerCase contentType \<noteq> ''application/octet-stream''
             then Responded [WriteHead 400, End None]
             else case Buffer_compare patternBuffer (requestBodyBuffer acc) of
               Inl e \<Rightarrow> Threw e
             | Inr c \<Rightarrow>
                 if c \<noteq> 0 then Responded [WriteHead 400, End None]
                 else case requestBodyBuffer acc of
                   None \<Rightarrow> Threw TypeError
                 | Some body \<Rightarrow>
                     transfer accept w body
                       [SetHeader ''Content-Type'' (HString ''application/octet-stream''),
                        SetHeader ''Content-Length'' (HNumber PATTERN_SIZE),
                        WriteHead 200])"

definition checkstring ::
  "request \<Rightarrow> accumulator \<Rightarrow> nat \<Rightarrow> (nat \<Rightarrow> bool) \<Rightarrow> handler_result" where
  "checkstring req acc w accept =
     (let patternBuffer = Buffer_from (repeat PATTERN_STRING PATTERN_STRING_REPEAT)
      in if toUpperCase (requestMethod req) \<noteq> ''POST'' then Responded [WriteHead 400, End None]
         else case headers req ''content-type'' of
           None \<Rightarrow> Responded [WriteHead 400, End None]
         | Some contentType \<Rightarrow>
             if toLowerCase contentType \<noteq> ''text/plain''
             then Responded [WriteHead 400, End None]
             else case Buffer_compare patternBuffer (requestBodyBuffer acc) of
               Inl e \<Rightarrow> Threw e
             | Inr c \<Rightarrow>
                 if c \<noteq> 0 then Responded [WriteHead 400, End None]
                 else case requestBodyBuffer acc of
                   None \<Rightarrow> Threw TypeError
                 | Some body \<Rightarrow>
                     transfer accept w body
                       [SetHeader ''Content-Type'' (HString ''text/plain''),
                        SetHeader ''Content-Length'' (HNumber (length body)),
                        WriteHead 200])"

text \<open>The values of JSON, and \<open>defaults.JSON_OBJECT\<close>.\<close>

datatype json =
    Json_null
  | Json_boolean bool
  | Json_number int
  | Json_string string
  | Json_array "json list"
  | Json_object "(string \<times> json) list"

definition JSON_OBJECT :: json where
  "JSON_OBJECT =
     Json_object
       [(''firstName'', Json_string ''John''),
        (''lastName'', Json_string ''Doe''),
        (''age'', Json_number 25),
        (''address'',
           Json_object
             [(''street'', Json_string ''Somewhere''),
              (''city'', Json_string ''Anytown''),
              (''state'', Json_string ''CA''),
              (''zip'', Json_number 12345)]),
        (''isActive'', Json_boolean True)]"

text \<open>
  The functions of the runtime and of lodash that \<open>/checkjson\<close> calls are parameters:
  \<open>JSON.parse\<close> (\<open>None\<close> when it throws), \<open>lodash.isEqual\<close> and \<open>JSON.stringify\<close>.
\<close>

record json_functions =
  JSON_parse :: "string \<Rightarrow> json option"
  isEqual :: "json \<Rightarrow> json \<Rightarrow> bool"
  JSON_stringify :: "json \<Rightarrow> string"

text \<open>
  The \<open>try\<close> block: \<open>requestBodyBuffer.toString("utf8")\<close> throws on \<open>null\<close> and \<open>JSON.parse\<close>
  throws on a text that is not JSON; the \<open>catch\<close> takes both.
\<close>

definition try_parse :: "json_functions \<Rightarrow> buffer option \<Rightarrow> json option" where
  "try_parse lib buf =
     (case buf of None \<Rightarrow> None | Some body \<Rightarrow> JSON_parse lib body)"

definition sendPlainTextResponseWithLogging :: "nat \<Rightarrow> string \<Rightarrow> response_event list" where
  "sendPlainTextResponseWithLogging statusCode message =
     [SetHeader ''Content-Type'' (HString ''text/plain; charset=UTF-8''),
      WriteHead statusCode,
      End (Some message)]"

definition not_POST :: string where
  "not_POST = ''The HTTP request method is not POST.''"

definition not_json_type :: string where
  \<open>not_json_type = ''The HTTP request "Content-Type" header is not "application/json".''\<close>

definition not_parseable :: string where
  "not_parseable = ''The HTTP request body is not parseable as JSON.''"

definition not_matching :: string where
  "not_matching = ''The HTTP request body JSON object does not match the pattern JSON object.''"

definition checkjson ::
  "json_functions \<Rightarrow> request \<Rightarrow> accumulator \<Rightarrow> nat \<Rightarrow> (nat \<Rightarrow> bool) \<Rightarrow> handler_result" where
  "checkjson lib req acc w accept =
     (if toUpperCase (requestMethod req) \<noteq> ''POST''
      then Responded (sendPlainTextResponseWithLogging 400 not_POST)
      else case headers req ''content-type'' of
        None \<Rightarrow> Responded (sendPlainTextResponseWithLogging 400 not_json_type)
      | Some contentType \<Rightarrow>
          if toLowerCase contentType \<noteq> ''application/json''
          then Responded (sendPlainTextResponseWithLogging 400 not_json_type)
          else case try_parse lib (requestBodyBuffer acc) of
            None \<Rightarrow> Responded (sendPlainTextResponseWithLogging 400 not_parseable)
          | Some requestBodyObject \<Rightarrow>
              if isEqual lib requestBodyObject JSON_OBJECT = False
              then Responded (sendPlainTextResponseWithLogging 400 not_matching)
              else
                (let responseBodyBuffer = Buffer_from (JSON_stringify lib JSON_OBJECT)
                 in transfer accept w responseBodyBuffer
                      [SetHeader ''Content-Type'' (HString ''application/json''),
                       SetHeader ''Content-Length'' (HNumber (length responseBodyBuffer)),
                       WriteHead 200]))"

section \<open>Properties of the check routes\<close>

lemma compare_bytes_eq: "compare_bytes a b = 0 \<longleftrightarrow> a = b"
  by (induction a b rule: compare_bytes.induct) simp_all

lemma ended_with_transcript: "ended_with (transcript accept k cs) = []"
  by (induction cs arbitrary: k) simp_all

lemma transfer_transcript:
  "0 < w \<Longrightarrow>
   transfer accept w buf log = Responded (log @ transcript accept 0 (chunks_of w buf))"
  by (simp add: transfer_def sendResponseBody_transcript)

text \<open>The response of a transfer that follows the two headers and the status.\<close>

lemma transfer_response:
  assumes "0 < w"
  shows "\<exists>log. transfer accept w buf [SetHeader n1 v1, SetHeader n2 v2, WriteHead code]
        = Responded log
      \<and> status_of log = Some code \<and> response_body log = buf
      \<and> header n1 log = Some v1 \<and> (n1 \<noteq> n2 \<longrightarrow> header n2 log = Some v2)
      \<and> disciplined Ready log"
proof -
  let ?t = "transcript accept 0 (chunks_of w buf)"
  let ?log = "[SetHeader n1 v1, SetHeader n2 v2, WriteHead code] @ ?t"
  have "transfer accept w buf [SetHeader n1 v1, SetHeader n2 v2, WriteHead code] = Responded ?log"
    using assms by (rule transfer_transcript)
  moreover have "status_of ?log = Some code"
    by simp
  moreover have "response_body ?log = buf"
    using assms
    by (simp add: response_body_def written_transcript ended_with_transcript concat_chunks_of)
  moreover have "header n1 ?log = Some v1" and "n1 \<noteq> n2 \<longrightarrow> header n2 ?log = Some v2"
    by simp_all
  moreover have "disciplined Ready ?log"
    by (simp add: disciplined_transcript)
  ultimately show ?thesis
    by blast
qed

lemma checkpattern_patternBuffer_alloc:
  "Buffer_alloc PATTERN_SIZE PATTERN_STRING = checkpattern_patternBuffer"
  by (simp only: checkpattern_patternBuffer_def)

lemma checkpattern_mismatch:
  assumes "requestBodyBuffer acc = Some b" and "b \<noteq> checkpattern_patternBuffer"
  shows "checkpattern req acc w accept = Responded [WriteHead 400, End None]"
proof -
  have "compare_bytes checkpattern_patternBuffer b \<noteq> 0"
    using assms(2) by (simp add: compare_bytes_eq)
  then show ?thesis
    using assms(1)
    by (simp add: checkpattern_def checkpattern_patternBuffer_alloc Buffer_compare_def
        split: option.split)
qed

lemma checkpattern_match:
  assumes "0 < w" and "toUpperCase (requestMethod req) = ''POST''"
    and "headers req ''content-type'' = Some ct"
    and "toLowerCase ct = ''application/octet-stream''"
    and "requestBodyBuffer acc = Some checkpattern_patternBuffer"
  shows "checkpattern req acc w accept =
    transfer accept w checkpattern_patternBuffer
      [SetHeader ''Content-Type'' (HString ''application/octet-stream''),
       SetHeader ''Content-Length'' (HNumber PATTERN_SIZE), WriteHead 200]"
  using assms
  by (simp add: checkpattern_def checkpattern_patternBuffer_alloc Buffer_compare_def
      compare_bytes_eq)

text \<open>
  Claim C2. Let the write limit be positive. A request to \<open>/checkpattern\<close> whose method is
  POST and whose \<open>Content-Type\<close> is \<open>application/octet-stream\<close> (both compared without regard
  to case, as the handler does), with a body equal to the 2,000,000-byte binary fixture,
  is answered with status 200 and a body that is byte for byte the body received, sent by
  the chunked write loop with the two headers of the handler. A request whose body is
  any other sequence of bytes (in particular the fixture with one byte changed), or whose
  \<open>Content-Type\<close> is absent or another one, or whose method is GET, is answered with status
  400 and an empty body.
\<close>

theorem C2_checkpattern:
  assumes "0 < w"
  shows "(toUpperCase (requestMethod req) = ''POST''
          \<and> (\<exists>ct. headers req ''content-type'' = Some ct
                \<and> toLowerCase ct = ''application/octet-stream'')
          \<and> requestBodyBuffer acc = Some checkpattern_patternBuffer \<longrightarrow>
          (\<exists>log. checkpattern req acc w accept = Responded log
             \<and> status_of log = Some 200
             \<and> Some (response_body log) = requestBodyBuffer acc
             \<and> length (response_body log) = 2000000
             \<and> header ''Content-Type'' log = Some (HString ''application/octet-stream'')
             \<and> header ''Content-Length'' log = Some (HNumber 2000000)
             \<and> disciplined Ready log))
       \<and> (\<forall>b. requestBodyBuffer acc = Some b \<and> b \<noteq> checkpattern_patternBuffer \<longrightarrow>
            checkpattern req acc w accept = Responded [WriteHead 400, End None])
       \<and> (\<forall>i c. i < 2000000 \<and> c \<noteq> checkpattern_patternBuffer ! i
            \<and> requestBodyBuffer acc = Some (checkpattern_patternBuffer[i := c]) \<longrightarrow>
            checkpattern req acc w accept = Responded [WriteHead 400, End None])
       \<and> (headers req ''content-type'' = None
            \<or> (\<exists>ct. headers req ''content-type'' = Some ct
                  \<and> toLowerCase ct \<noteq> ''application/octet-stream'') \<longrightarrow>
            checkpattern req acc w accept = Responded [WriteHead 400, End None])
       \<and> (toUpperCase (requestMethod req) = ''GET'' \<longrightarrow>
            checkpattern req acc w accept = Responded [WriteHead 400, End None])
       \<and> status_of [WriteHead 400, End None] = Some 400
       \<and> response_body [WriteHead 400, End None] = []"
proof (intro conjI impI allI)
  assume a: "toUpperCase (requestMethod req) = ''POST''
    \<and> (\<exists>ct. headers req ''content-type'' = Some ct \<and> toLowerCase ct = ''application/octet-stream'')
    \<and> requestBodyBuffer acc = Some checkpattern_patternBuffer"
  then obtain ct where ct: "headers req ''content-type'' = Some ct"
    "toLowerCase ct = ''application/octet-stream''"
    by blast
  from a have body: "requestBodyBuffer acc = Some checkpattern_patternBuffer"
    by blast
  have size: "PATTERN_SIZE = 2000000"
    by (simp add: PATTERN_SIZE_def)
  have run: "checkpattern req acc w accept =
      transfer accept w checkpattern_patternBuffer
        [SetHeader ''Content-Type'' (HString ''application/octet-stream''),
         SetHeader ''Content-Length'' (HNumber PATTERN_SIZE), WriteHead 200]"
    using assms a ct body by (intro checkpattern_match) simp_all
  from transfer_response [OF assms, of accept checkpattern_patternBuffer
      "''Content-Type''" "HString ''application/octet-stream''"
      "''Content-Length''" "HNumber PATTERN_SIZE" 200]
  obtain log where log: "transfer accept w checkpattern_patternBuffer
      [SetHeader ''Content-Type'' (HString ''application/octet-stream''),
       SetHeader ''Content-Length'' (HNumber PATTERN_SIZE), WriteHead 200] = Responded log"
    "status_of log = Some 200" "response_body log = checkpattern_patternBuffer"
    "header ''Content-Type'' log = Some (HString ''application/octet-stream'')"
    "''Content-Type'' \<noteq> ''Content-Length'' \<longrightarrow>
      header ''Content-Length'' log = Some (HNumber PATTERN_SIZE)"
    "disciplined Ready log"
    by blast
  have "header ''Content-Length'' log = Some (HNumber 2000000)"
    using log(5) by (simp add: size)
  moreover have "length (response_body log) = 2000000"
    by (simp only: log(3) length_checkpattern_patternBuffer)
  moreover have "Some (response_body log) = requestBodyBuffer acc"
    by (simp only: log(3) body)
  ultimately show "\<exists>log. checkpattern req acc w accept = Responded log
      \<and> status_of log = Some 200
      \<and> Some (response_body log) = requestBodyBuffer acc
      \<and> length (response_body log) = 2000000
      \<and> header ''Content-Type'' log = Some (HString ''application/octet-stream'')
      \<and> header ''Content-Length'' log = Some (HNumber 2000000)
      \<and> disciplined Ready log"
    using run log(1,2,4,6) by auto
next
  fix b
  assume "requestBodyBuffer acc = Some b \<and> b \<noteq> checkpattern_patternBuffer"
  then show "checkpattern req acc w accept = Responded [WriteHead 400, End None]"
    by (simp add: checkpattern_mismatch)
next
  fix i c
  assume a: "i < 2000000 \<and> c \<noteq> checkpattern_patternBuffer ! i
    \<and> requestBodyBuffer acc = Some (checkpattern_patternBuffer[i := c])"
  then have "checkpattern_patternBuffer[i := c] ! i = c"
    by (simp add: length_checkpattern_patternBuffer)
  with a have "checkpattern_patternBuffer[i := c] \<noteq> checkpattern_patternBuffer"
    by metis
  with a show "checkpattern req acc w accept = Responded [WriteHead 400, End None]"
    by (simp add: checkpattern_mismatch)
next
  assume "headers req ''content-type'' = None
    \<or> (\<exists>ct. headers req ''content-type'' = Some ct
          \<and> toLowerCase ct \<noteq> ''application/octet-stream'')"
  then show "checkpattern req acc w accept = Responded [WriteHead 400, End None]"
    by (auto simp add: checkpattern_def)
next
  assume "toUpperCase (requestMethod req) = ''GET''"
  then show "checkpattern req acc w accept = Responded [WriteHead 400, End None]"
    by (simp add: checkpattern_def)
next
  show "status_of [WriteHead 400, End None] = Some 400"
    by simp
  show "response_body [WriteHead 400, End None] = []"
    by (simp add: response_body_def)
qed

text \<open>
  Example requests: a POST with the content type of the route and the given body
  variables, and the body variables of a session that received the binary fixture.
\<close>

definition post_request :: "string \<Rightarrow> string \<Rightarrow> request" where
  "post_request path contentType =
     \<lparr>requestMethod = ''POST'', pathname = path, headers = [''content-type'' \<mapsto> contentType]\<rparr>"

definition get_request :: "string \<Rightarrow> request" where
  "get_request path = \<lparr>requestMethod = ''GET'', pathname = path, headers = Map.empty\<rparr>"

definition received :: "buffer \<Rightarrow> accumulator" where
  "received body =
     \<lparr>requestBodyBuffer = Some body, requestBodyBufferSize = length body,
      requestBodyArrayOfBuffers = None\<rparr>"

theorem C2_checkpattern_witness:
  "(0::nat) < 16384
   \<and> (\<exists>log. checkpattern (post_request ''/checkpattern'' ''application/octet-stream'')
               (received checkpattern_patternBuffer) 16384 (\<lambda>k. True) = Responded log
         \<and> status_of log = Some 200
         \<and> response_body log = checkpattern_patternBuffer)
   \<and> checkpattern (post_request ''/checkpattern'' ''application/octet-stream'')
        (received ''This is a pattern?'') 16384 (\<lambda>k. True) = Responded [WriteHead 400, End None]
   \<and> checkpattern (post_request ''/checkpattern'' ''text/plain'')
        (received checkpattern_patternBuffer) 16384 (\<lambda>k. True) = Responded [WriteHead 400, End None]
   \<and> checkpattern (get_request ''/checkpattern'')
        (received checkpattern_patternBuffer) 16384 (\<lambda>k. True) = Responded [WriteHead 400, End None]"
proof -
  let ?ok = "post_request ''/checkpattern'' ''application/octet-stream''"
  let ?text = "post_request ''/checkpattern'' ''text/plain''"
  let ?get = "get_request ''/checkpattern''"
  let ?acc = "received checkpattern_patternBuffer"
  let ?other = "received ''This is a pattern?''"
  have pos: "(0::nat) < 16384"
    by simp
  have h1: "toUpperCase (requestMethod ?ok) = ''POST''
      \<and> (\<exists>ct. headers ?ok ''content-type'' = Some ct
            \<and> toLowerCase ct = ''application/octet-stream'')
      \<and> requestBodyBuffer ?acc = Some checkpattern_patternBuffer"
    by (simp add: post_request_def received_def toUpperCase_def toLowerCase_def)
  have "''This is a pattern?'' \<noteq> checkpattern_patternBuffer"
  proof
    assume "''This is a pattern?'' = checkpattern_patternBuffer"
    then have "length ''This is a pattern?'' = length checkpattern_patternBuffer"
      by (rule arg_cong)
    then show False
      by (simp add: length_checkpattern_patternBuffer)
  qed
  then have h2: "requestBodyBuffer ?other = Some ''This is a pattern?''
      \<and> ''This is a pattern?'' \<noteq> checkpattern_patternBuffer"
    by (simp add: received_def)
  have h3: "headers ?text ''content-type'' = None
      \<or> (\<exists>ct. headers ?text ''content-type'' = Some ct
            \<and> toLowerCase ct \<noteq> ''application/octet-stream'')"
    by (simp add: post_request_def toLowerCase_def)
  have h4: "toUpperCase (requestMethod ?get) = ''GET''"
    by (simp add: get_request_def toUpperCase_def)
  from C2_checkpattern [OF pos, of ?ok ?acc "\<lambda>k. True"] h1
  have "\<exists>log. checkpattern ?ok ?acc 16384 (\<lambda>k. True) = Responded log
      \<and> status_of log = Some 200
      \<and> Some (response_body log) = requestBodyBuffer ?acc"
    by blast
  then have c1: "\<exists>log. checkpattern ?ok ?acc 16384 (\<lambda>k. True) = Responded log
      \<and> status_of log = Some 200
      \<and> response_body log = checkpattern_patternBuffer"
    by (simp add: received_def)
  from C2_checkpattern [OF pos, of ?ok ?other "\<lambda>k. True"] h2
  have c2: "checkpattern ?ok ?other 16384 (\<lambda>k. True) = Responded [WriteHead 400, End None]"
    by blast
  from C2_checkpattern [OF pos, of ?text ?acc "\<lambda>k. True"] h3
  have c3: "checkpattern ?text ?acc 16384 (\<lambda>k. True) = Responded [WriteHead 400, End None]"
    by blast
  from C2_checkpattern [OF pos, of ?get ?acc "\<lambda>k. True"] h4
  have c4: "checkpattern ?get ?acc 16384 (\<lambda>k. True) = Responded [WriteHead 400, End None]"
    by blast
  from pos c1 c2 c3 c4 show ?thesis
    by blast
qed

text \<open>
  Claim C9, at the input where the code departs from it. A POST to \<open>/checkpattern\<close> or to
  \<open>/checkstring\<close> with the content type of the route and no body: no chunk arrived, so
  \<open>requestBodyBuffer\<close> is still \<open>null\<close>; the method and header tests pass, and
  \<open>Buffer.compare(patternBuffer, null)\<close> throws a \<open>TypeError\<close>. The handler makes no call
  on the response: there is no status 400.
\<close>

theorem C9_empty_body_throws:
  "requestBodyBuffer (completed []) = None
   \<and> checkpattern (post_request ''/checkpattern'' ''application/octet-stream'')
        (completed []) w accept = Threw TypeError
   \<and> checkstring (post_request ''/checkstring'' ''text/plain'')
        (completed []) w accept = Threw TypeError"
proof -
  have body: "requestBodyBuffer (completed []) = None"
    by (simp add: completed_def new_accumulator_def on_end_def)
  have "checkpattern (post_request ''/checkpattern'' ''application/octet-stream'')
      (completed []) w accept = Threw TypeError"
    by (simp add: checkpattern_def post_request_def toUpperCase_def toLowerCase_def
        Buffer_compare_def body)
  moreover have "checkstring (post_request ''/checkstring'' ''text/plain'')
      (completed []) w accept = Threw TypeError"
    by (simp add: checkstring_def post_request_def toUpperCase_def toLowerCase_def
        Buffer_compare_def body)
  ultimately show ?thesis
    using body by blast
qed

lemma plain_text_response:
  "status_of (sendPlainTextResponseWithLogging code message) = Some code
   \<and> response_body (sendPlainTextResponseWithLogging code message) = message
   \<and> written (sendPlainTextResponseWithLogging code message) = []
   \<and> header ''Content-Type'' (sendPlainTextResponseWithLogging code message)
       = Some (HString ''text/plain; charset=UTF-8'')"
  by (simp add: sendPlainTextResponseWithLogging_def response_body_def)

lemma messages_distinct: "distinct [not_POST, not_json_type, not_parseable, not_matching]"
  by (simp add: not_POST_def not_json_type_def not_parseable_def not_matching_def)

text \<open>
  Claim C4. The handler of \<open>/checkjson\<close> tests, in this order: the method is POST; the
  \<open>Content-Type\<close> is \<open>application/json\<close> (both without regard to case); the body parses as
  JSON (a missing body does not); the parsed value is equal to the fixture for
  \<open>lodash.isEqual\<close>. At the first test that fails it answers 400 with the message of that
  test as a plain text body, and writes no chunk; the four messages differ. If all four
  hold and the write limit is positive, it answers 200 with content type
  \<open>application/json\<close> and the body \<open>JSON.stringify(defaults.JSON_OBJECT)\<close>.
\<close>

theorem C4_checkjson:
  "(toUpperCase (requestMethod req) \<noteq> ''POST'' \<longrightarrow>
      checkjson lib req acc w accept = Responded (sendPlainTextResponseWithLogging 400 not_POST))
   \<and> (toUpperCase (requestMethod req) = ''POST''
        \<and> (headers req ''content-type'' = None
            \<or> (\<exists>ct. headers req ''content-type'' = Some ct
                  \<and> toLowerCase ct \<noteq> ''application/json'')) \<longrightarrow>
      checkjson lib req acc w accept
        = Responded (sendPlainTextResponseWithLogging 400 not_json_type))
   \<and> (toUpperCase (requestMethod req) = ''POST''
        \<and> (\<exists>ct. headers req ''content-type'' = Some ct \<and> toLowerCase ct = ''application/json'')
        \<and> try_parse lib (requestBodyBuffer acc) = None \<longrightarrow>
      checkjson lib req acc w accept
        = Responded (sendPlainTextResponseWithLogging 400 not_parseable))
   \<and> (toUpperCase (requestMethod req) = ''POST''
        \<and> (\<exists>ct. headers req ''content-type'' = Some ct \<and> toLowerCase ct = ''application/json'')
        \<and> (\<exists>v. try_parse lib (requestBodyBuffer acc) = Some v \<and> \<not> isEqual lib v JSON_OBJECT) \<longrightarrow>
      checkjson lib req acc w accept
        = Responded (sendPlainTextResponseWithLogging 400 not_matching))
   \<and> (0 < w \<and> toUpperCase (requestMethod req) = ''POST''
        \<and> (\<exists>ct. headers req ''content-type'' = Some ct \<and> toLowerCase ct = ''application/json'')
        \<and> (\<exists>v. try_parse lib (requestBodyBuffer acc) = Some v \<and> isEqual lib v JSON_OBJECT) \<longrightarrow>
      (\<exists>log. checkjson lib req acc w accept = Responded log
         \<and> status_of log = Some 200
         \<and> header ''Content-Type'' log = Some (HString ''application/json'')
         \<and> header ''Content-Length'' log
             = Some (HNumber (length (JSON_stringify lib JSON_OBJECT)))
         \<and> response_body log = JSON_stringify lib JSON_OBJECT
         \<and> disciplined Ready log))
   \<and> (requestBodyBuffer acc = None \<longrightarrow> try_parse lib (requestBodyBuffer acc) = None)
   \<and> (\<forall>message. status_of (sendPlainTextResponseWithLogging 400 message) = Some 400
         \<and> response_body (sendPlainTextResponseWithLogging 400 message) = message
         \<and> written (sendPlainTextResponseWithLogging 400 message) = []
         \<and> header ''Content-Type'' (sendPlainTextResponseWithLogging 400 message)
             = Some (HString ''text/plain; charset=UTF-8''))
   \<and> distinct [not_POST, not_json_type, not_parseable, not_matching]"
proof (intro conjI impI allI)
  assume "toUpperCase (requestMethod req) \<noteq> ''POST''"
  then show "checkjson lib req acc w accept
      = Responded (sendPlainTextResponseWithLogging 400 not_POST)"
    by (simp add: checkjson_def)
next
  assume "toUpperCase (requestMethod req) = ''POST''
    \<and> (headers req ''content-type'' = None
        \<or> (\<exists>ct. headers req ''content-type'' = Some ct \<and> toLowerCase ct \<noteq> ''application/json''))"
  then show "checkjson lib req acc w accept
      = Responded (sendPlainTextResponseWithLogging 400 not_json_type)"
    by (auto simp add: checkjson_def)
next
  assume "toUpperCase (requestMethod req) = ''POST''
    \<and> (\<exists>ct. headers req ''content-type'' = Some ct \<and> toLowerCase ct = ''application/json'')
    \<and> try_parse lib (requestBodyBuffer acc) = None"
  then show "checkjson lib req acc w accept
      = Responded (sendPlainTextResponseWithLogging 400 not_parseable)"
    by (auto simp add: checkjson_def)
next
  assume "toUpperCase (requestMethod req) = ''POST''
    \<and> (\<exists>ct. headers req ''content-type'' = Some ct \<and> toLowerCase ct = ''application/json'')
    \<and> (\<exists>v. try_parse lib (requestBodyBuffer acc) = Some v \<and> \<not> isEqual lib v JSON_OBJECT)"
  then show "checkjson lib req acc w accept
      = Responded (sendPlainTextResponseWithLogging 400 not_matching)"
    by (auto simp add: checkjson_def)
next
  assume a: "0 < w \<and> toUpperCase (requestMethod req) = ''POST''
    \<and> (\<exists>ct. headers req ''content-type'' = Some ct \<and> toLowerCase ct = ''application/json'')
    \<and> (\<exists>v. try_parse lib (requestBodyBuffer acc) = Some v \<and> isEqual lib v JSON_OBJECT)"
  let ?body = "JSON_stringify lib JSON_OBJECT"
  from a have w: "0 < w"
    by blast
  from a have run: "checkjson lib req acc w accept =
      transfer accept w ?body
        [SetHeader ''Content-Type'' (HString ''application/json''),
         SetHeader ''Content-Length'' (HNumber (length ?body)), WriteHead 200]"
    by (auto simp add: checkjson_def Buffer_from_def Let_def)
  from transfer_response [OF w, of accept ?body "''Content-Type''"
      "HString ''application/json''" "''Content-Length''" "HNumber (length ?body)" 200]
  obtain log where log: "transfer accept w ?body
      [SetHeader ''Content-Type'' (HString ''application/json''),
       SetHeader ''Content-Length'' (HNumber (length ?body)), WriteHead 200] = Responded log"
    "status_of log = Some 200" "response_body log = ?body"
    "header ''Content-Type'' log = Some (HString ''application/json'')"
    "''Content-Type'' \<noteq> ''Content-Length'' \<longrightarrow>
      header ''Content-Length'' log = Some (HNumber (length ?body))"
    "disciplined Ready log"
    by blast
  have "header ''Content-Length'' log = Some (HNumber (length ?body))"
    using log(5) by simp
  then show "\<exists>log. checkjson lib req acc w accept = Responded log
      \<and> status_of log = Some 200
      \<and> header ''Content-Type'' log = Some (HString ''application/json'')
      \<and> header ''Content-Length'' log = Some (HNumber (length ?body))
      \<and> response_body log = ?body
      \<and> disciplined Ready log"
    using run log(1,2,3,4,6) by auto
next
  assume "requestBodyBuffer acc = None"
  then show "try_parse lib (requestBodyBuffer acc) = None"
    by (simp add: try_parse_def)
next
  fix message
  show "status_of (sendPlainTextResponseWithLogging 400 message) = Some 400"
    and "response_body (sendPlainTextResponseWithLogging 400 message) = message"
    and "written (sendPlainTextResponseWithLogging 400 message) = []"
    and "header ''Content-Type'' (sendPlainTextResponseWithLogging 400 message)
      = Some (HString ''text/plain; charset=UTF-8'')"
    using plain_text_response [of 400 message] by blast+
next
  show "distinct [not_POST, not_json_type, not_parseable, not_matching]"
    by (rule messages_distinct)
qed

text \<open>
  Example functions for \<open>/checkjson\<close>: a parser that knows two texts, equality of values,
  and a serializer that returns one text.
\<close>

definition example_functions :: json_functions where
  "example_functions =
     \<lparr>JSON_parse = (\<lambda>s. if s = ''fixture'' then Some JSON_OBJECT
                          else if s = ''{}'' then Some (Json_object []) else None),
      isEqual = (\<lambda>a b. a = b),
      JSON_stringify = (\<lambda>j. ''serialized'')\<rparr>"

theorem C4_checkjson_witness:
  "checkjson example_functions (get_request ''/checkjson'') (received ''fixture'') 4 (\<lambda>k. True)
     = Responded (sendPlainTextResponseWithLogging 400 not_POST)
   \<and> checkjson example_functions (post_request ''/checkjson'' ''text/plain'')
        (received ''fixture'') 4 (\<lambda>k. True)
     = Responded (sendPlainTextResponseWithLogging 400 not_json_type)
   \<and> checkjson example_functions (post_request ''/checkjson'' ''application/json'')
        (completed []) 4 (\<lambda>k. True)
     = Responded (sendPlainTextResponseWithLogging 400 not_parseable)
   \<and> checkjson example_functions (post_request ''/checkjson'' ''application/json'')
        (received ''{}'') 4 (\<lambda>k. True)
     = Responded (sendPlainTextResponseWithLogging 400 not_matching)
   \<and> (\<exists>log. checkjson example_functions (post_request ''/checkjson'' ''Application/JSON'')
          (received ''fixture'') 4 (\<lambda>k. True) = Responded log
        \<and> status_of log = Some 200 \<and> response_body log = ''serialized'')"
proof -
  let ?lib = example_functions
  let ?post = "post_request ''/checkjson'' ''application/json''"
  let ?Post = "post_request ''/checkjson'' ''Application/JSON''"
  let ?text = "post_request ''/checkjson'' ''text/plain''"
  let ?get = "get_request ''/checkjson''"
  have h1: "toUpperCase (requestMethod ?get) \<noteq> ''POST''"
    by (simp add: get_request_def toUpperCase_def)
  have h2: "toUpperCase (requestMethod ?text) = ''POST''
      \<and> (headers ?text ''content-type'' = None
          \<or> (\<exists>ct. headers ?text ''content-type'' = Some ct
                \<and> toLowerCase ct \<noteq> ''application/json''))"
    by (simp add: post_request_def toUpperCase_def toLowerCase_def)
  have post: "toUpperCase (requestMethod ?post) = ''POST''
      \<and> (\<exists>ct. headers ?post ''content-type'' = Some ct \<and> toLowerCase ct = ''application/json'')"
    by (simp add: post_request_def toUpperCase_def toLowerCase_def)
  have Post: "toUpperCase (requestMethod ?Post) = ''POST''
      \<and> (\<exists>ct. headers ?Post ''content-type'' = Some ct \<and> toLowerCase ct = ''application/json'')"
    by (simp add: post_request_def toUpperCase_def toLowerCase_def)
  have p3: "try_parse ?lib (requestBodyBuffer (completed [])) = None"
    by (simp add: try_parse_def completed_def new_accumulator_def on_end_def)
  have p4: "\<exists>v. try_parse ?lib (requestBodyBuffer (received ''{}'')) = Some v
      \<and> \<not> isEqual ?lib v JSON_OBJECT"
    by (simp add: try_parse_def received_def example_functions_def JSON_OBJECT_def)
  have p5: "\<exists>v. try_parse ?lib (requestBodyBuffer (received ''fixture'')) = Some v
      \<and> isEqual ?lib v JSON_OBJECT"
    by (simp add: try_parse_def received_def example_functions_def)
  have s: "JSON_stringify ?lib JSON_OBJECT = ''serialized''"
    by (simp add: example_functions_def)
  have pos: "(0::nat) < 4"
    by simp
  from C4_checkjson [of ?get ?lib "received ''fixture''" 4 "\<lambda>k. True"] h1
  have c1: "checkjson ?lib ?get (received ''fixture'') 4 (\<lambda>k. True)
      = Responded (sendPlainTextResponseWithLogging 400 not_POST)"
    by blast
  from C4_checkjson [of ?text ?lib "received ''fixture''" 4 "\<lambda>k. True"] h2
  have c2: "checkjson ?lib ?text (received ''fixture'') 4 (\<lambda>k. True)
      = Responded (sendPlainTextResponseWithLogging 400 not_json_type)"
    by blast
  from C4_checkjson [of ?post ?lib "completed []" 4 "\<lambda>k. True"] post p3
  have c3: "checkjson ?lib ?post (completed []) 4 (\<lambda>k. True)
      = Responded (sendPlainTextResponseWithLogging 400 not_parseable)"
    by blast
  from C4_checkjson [of ?post ?lib "received ''{}''" 4 "\<lambda>k. True"] post p4
  have c4: "checkjson ?lib ?post (received ''{}'') 4 (\<lambda>k. True)
      = Responded (sendPlainTextResponseWithLogging 400 not_matching)"
    by blast
  from C4_checkjson [of ?Post ?lib "received ''fixture''" 4 "\<lambda>k. True"] Post p5 pos
  have "\<exists>log. checkjson ?lib ?Post (received ''fixture'') 4 (\<lambda>k. True) = Responded log
      \<and> status_of log = Some 200 \<and> response_body log = JSON_stringify ?lib JSON_OBJECT"
    by blast
  then have c5: "\<exists>log. checkjson ?lib ?Post (received ''fixture'') 4 (\<lambda>k. True) = Responded log
      \<and> status_of log = Some 200 \<and> response_body log = ''serialized''"
    by (simp only: s)
  from c1 c2 c3 c4 c5 show ?thesis
    by blast
qed

section \<open>The timers and intervals of a request session\<close>

text \<open>
  The path of the URL that the closures of \<open>#processRequest\<close> captured, the six closure
  variables that hold timer and interval handles (\<open>None\<close> is \<open>null\<close>), the handles passed so
  far to \<open>clearTimeout\<close> and \<open>clearInterval\<close> (\<open>cleared\<close>, in the order of the calls), whether the
  request and the response were destroyed, and whether the listeners of the request's and
  of the response's \<open>"close"\<close> event are registered. The listeners of the two \<open>"error"\<close> events
  are registered first in every session.
\<close>

record session =
  urlPathname :: string
  silentTimeoutTimer :: "nat option"
  noisyRejectionSendResponseTimer :: "nat option"
  noisyRejectionSendResponseInterval :: "nat option"
  noisyTimeoutSendResponseTimer :: "nat option"
  noisyTimeoutSendResponseInterval :: "nat option"
  noisyTimeoutTimer :: "nat option"
  cleared :: "nat list"
  requestDestroyed :: bool
  responseDestroyed :: bool
  requestCloseListener :: bool
  responseCloseListener :: bool

definition new_session :: "string \<Rightarrow> session" where
  "new_session path =
     \<lparr>urlPathname = path,
      silentTimeoutTimer = None, noisyRejectionSendResponseTimer = None,
      noisyRejectionSendResponseInterval = None, noisyTimeoutSendResponseTimer = None,
      noisyTimeoutSendResponseInterval = None, noisyTimeoutTimer = None,
      cleared = [], requestDestroyed = False, responseDestroyed = False,
      requestCloseListener = False, responseCloseListener = False\<rparr>"

text \<open>
  The function \<open>clearTimersAndIntervals\<close>: six tests in a row, each of which clears the
  handle of a variable that is not \<open>null\<close> and then sets the variable to \<open>null\<close>.
\<close>

definition clearTimersAndIntervals :: "session \<Rightarrow> session" where
  "clearTimersAndIntervals s0 =
     (let s1 = (case silentTimeoutTimer s0 of None \<Rightarrow> s0
                | Some h \<Rightarrow> s0\<lparr>cleared := cleared s0 @ [h], silentTimeoutTimer := None\<rparr>);
          s2 = (case noisyRejectionSendResponseInterval s1 of None \<Rightarrow> s1
                | Some h \<Rightarrow>
                    s1\<lparr>cleared := cleared s1 @ [h], noisyRejectionSendResponseInterval := None\<rparr>);
          s3 = (case noisyRejectionSendResponseTimer s2 of None \<Rightarrow> s2
                | Some h \<Rightarrow>
                    s2\<lparr>cleared := cleared s2 @ [h], noisyRejectionSendResponseTimer := None\<rparr>);
          s4 = (case noisyTimeoutSendResponseInterval s3 of None \<Rightarrow> s3
                | Some h \<Rightarrow>
                    s3\<lparr>cleared := cleared s3 @ [h], noisyTimeoutSendResponseInterval := None\<rparr>);
          s5 = (case noisyTimeoutSendResponseTimer s4 of None \<Rightarrow> s4
                | Some h \<Rightarrow>
                    s4\<lparr>cleared := cleared s4 @ [h], noisyTimeoutSendResponseTimer := None\<rparr>);
          s6 = (case noisyTimeoutTimer s5 of None \<Rightarrow> s5
                | Some h \<Rightarrow> s5\<lparr>cleared := cleared s5 @ [h], noisyTimeoutTimer := None\<rparr>)
      in s6)"

text \<open>
  The synchronous part of \<open>#processRequest\<close> for a path: the two silent paths return
  before the listeners of the body, of the request's \<open>"close"\<close> event and of the response's
  \<open>"close"\<close> event are registered; \<open>h\<close> is the handle that \<open>setTimeout\<close> returns.
\<close>

definition processRequest :: "string \<Rightarrow> nat \<Rightarrow> session" where
  "processRequest path h =
     (if path = ''/silentrejection'' then (new_session path)\<lparr>requestDestroyed := True\<rparr>
      else if path = ''/silenttimeout'' then (new_session path)\<lparr>silentTimeoutTimer := Some h\<rparr>
      else (new_session path)\<lparr>requestCloseListener := True, responseCloseListener := True\<rparr>)"

text \<open>
  The listener of the request's \<open>"close"\<close> event, as far as it sets timers: the two noisy
  paths; \<open>h1\<close>, \<open>h2\<close>, \<open>h3\<close> are the handles that \<open>setInterval\<close> and \<open>setTimeout\<close> return, in the
  order of the calls.
\<close>

definition on_request_close :: "nat \<Rightarrow> nat \<Rightarrow> nat \<Rightarrow> session \<Rightarrow> session" where
  "on_request_close h1 h2 h3 s =
     (if urlPathname s = ''/noisyrejection''
      then s\<lparr>noisyRejectionSendResponseInterval := Some h1,
             noisyRejectionSendResponseTimer := Some h2\<rparr>
      else if urlPathname s = ''/noisytimeout''
      then s\<lparr>noisyTimeoutSendResponseInterval := Some h1,
             noisyTimeoutSendResponseTimer := Some h2,
             noisyTimeoutTimer := Some h3\<rparr>
      else s)"

text \<open>A call \<open>clearInterval(v)\<close> for a variable \<open>v\<close>: \<open>clearInterval(null)\<close> clears nothing.\<close>

fun present :: "nat option \<Rightarrow> nat list" where
  "present None = []"
| "present (Some h) = [h]"

text \<open>
  The events of a session: the \<open>"error"\<close> and \<open>"close"\<close> events of the request (the latter with
  the handles that the timer functions return to its listener), the \<open>"error"\<close> and \<open>"close"\<close>
  events of the response, and the callbacks of the four timers (of their effects, the
  calls of \<open>clearInterval\<close> and the synchronous calls of \<open>destroy\<close>). An event whose listener
  is not registered changes nothing.
\<close>

datatype session_event =
    Request_error
  | Request_close nat nat nat
  | Response_error
  | Response_close
  | Timer_silentTimeout
  | Timer_noisyRejectionSendResponse
  | Timer_noisyTimeoutSendResponse
  | Timer_noisyTimeout

fun handle :: "session_event \<Rightarrow> session \<Rightarrow> session" where
  "handle Request_error s = (clearTimersAndIntervals s)\<lparr>requestDestroyed := True\<rparr>"
| "handle (Request_close h1 h2 h3) s =
     (if requestCloseListener s then on_request_close h1 h2 h3 s else s)"
| "handle Response_error s = (clearTimersAndIntervals s)\<lparr>responseDestroyed := True\<rparr>"
| "handle Response_close s = (if responseCloseListener s then clearTimersAndIntervals s else s)"
| "handle Timer_silentTimeout s = s\<lparr>requestDestroyed := True\<rparr>"
| "handle Timer_noisyRejectionSendResponse s =
     s\<lparr>cleared := cleared s @ present (noisyRejectionSendResponseInterval s),
       noisyRejectionSendResponseInterval := None\<rparr>"
| "handle Timer_noisyTimeoutSendResponse s =
     s\<lparr>cleared := cleared s @ present (noisyTimeoutSendResponseInterval s),
       noisyTimeoutSendResponseInterval := None\<rparr>"
| "handle Timer_noisyTimeout s = s\<lparr>responseDestroyed := True\<rparr>"

fun run :: "session_event list \<Rightarrow> session \<Rightarrow> session" where
  "run [] s = s"
| "run (e # es) s = run es (handle e s)"

text \<open>
  The order of the request's own events: a stream emits \<open>"close"\<close> once and as its last
  event, so no \<open>"error"\<close> and no second \<open>"close"\<close> of the request follows the first one.
\<close>

fun is_request_close :: "session_event \<Rightarrow> bool" where
  "is_request_close (Request_close h1 h2 h3) = True"
| "is_request_close e = False"

fun is_request_event :: "session_event \<Rightarrow> bool" where
  "is_request_event Request_error = True"
| "is_request_event (Request_close h1 h2 h3) = True"
| "is_request_event e = False"

fun no_request_event :: "session_event list \<Rightarrow> bool" where
  "no_request_event [] = True"
| "no_request_event (e # es) = (\<not> is_request_event e \<and> no_request_event es)"


fun request_order :: "session_event list \<Rightarrow> bool" where
  "request_order [] = True"
| "request_order (e # es) = (if is_request_close e then no_request_event es else request_order es)"

text \<open>The handles that the variables of a session hold, in the order of the six tests.\<close>

definition recorded :: "session \<Rightarrow> nat list" where
  "recorded s =
     present (silentTimeoutTimer s) @ present (noisyRejectionSendResponseInterval s)
     @ present (noisyRejectionSendResponseTimer s) @ present (noisyTimeoutSendResponseInterval s)
     @ present (noisyTimeoutSendResponseTimer s) @ present (noisyTimeoutTimer s)"





text \<open>The variables of the two noisy paths are all \<open>null\<close>.\<close>

definition noisy_unset :: "session \<Rightarrow> bool" where
  "noisy_unset s =
     (noisyRejectionSendResponseInterval s = None \<and> noisyRejectionSendResponseTimer s = None
      \<and> noisyTimeoutSendResponseInterval s = None \<and> noisyTimeoutSendResponseTimer s = None
      \<and> noisyTimeoutTimer s = None)"


section \<open>Properties of the cancellation routine\<close>









lemma noisy_unset_recorded: "noisy_unset s \<Longrightarrow> recorded s = present (silentTimeoutTimer s)"
  by (simp add: noisy_unset_def recorded_def)





























text \<open>
  The request's \<open>"error"\<close> event comes before its \<open>"close"\<close> event. In a session of a noisy path
  the routine that the listener of the \<open>"error"\<close> event invokes therefore runs while the
  variables are still \<open>null\<close>, and the listener of the \<open>"close"\<close> event registers the handles
  after it.
\<close>

lemma inbound_error_before_registration:
  "request_order [Request_error, Request_close 1 2 3]
   \<and> recorded (run [Request_error] (processRequest ''/noisytimeout'' 0)) = []
   \<and> cleared (run [Request_error] (processRequest ''/noisytimeout'' 0)) = []
   \<and> recorded (run [Request_error, Request_close 1 2 3] (processRequest ''/noisytimeout'' 0))
       = [1, 2, 3]
   \<and> cleared (run [Request_error, Request_close 1 2 3] (processRequest ''/noisytimeout'' 0))
       = []"
  by (simp add: processRequest_def new_session_def recorded_def on_request_close_def
      clearTimersAndIntervals_def)

end
